theory Spec2Isabelle
  imports Complex_Main "HOL-Library.AList"
begin

section \<open>Configuration (config.py)\<close>

text \<open>
  Python floats are modelled as real numbers and Python ints as \<open>int\<close> or \<open>nat\<close>;
  strings are \<open>string\<close>.  A Python dict is an association list in insertion order:
  \<open>map_of\<close> is the lookup and \<open>AList.update\<close> the assignment \<open>d[k] = v\<close> (an
  existing key keeps its place, a new key goes to the end).  A dict has no key twice,
  which is the invariant \<open>distinct (map fst d)\<close>; the assignment preserves it.
\<close>

definition MAX_RETRIES :: nat where
  "MAX_RETRIES = 3"

definition RETRY_BASE_DELAY :: nat where
  "RETRY_BASE_DELAY = 1"

definition CACHE_TTL :: real where
  "CACHE_TTL = 300"

definition INITIAL_BUDGET_USAGE :: real where
  "INITIAL_BUDGET_USAGE = 96 / 100"

definition TARGET_BUDGET_USAGE :: real where
  "TARGET_BUDGET_USAGE = 98 / 100"

definition STRATEGY_THRESHOLDS :: "(string \<times> int \<times> int) list" where
  "STRATEGY_THRESHOLDS =
     [(''diversification'', 0, 30),
      (''preference_weighted'', 31, 60),
      (''high_conviction'', 61, 100)]"

text \<open>The exceptions of Python that the modelled functions can let escape.\<close>

datatype py_error = KeyError | ZeroDivisionError | ValueError | AttributeError | TypeError

text \<open>\<open>int(x)\<close> on a float truncates towards zero.\<close>

definition py_int :: "real \<Rightarrow> int" where
  "py_int x = (if 0 \<le> x then \<lfloor>x\<rfloor> else \<lceil>x\<rceil>)"

section \<open>The price cache (cache_manager.py)\<close>

text \<open>
  The current region maps a ticker to its price and the time it was stored; the
  historical region maps (ticker, date) to the value stored for it, a price or \<open>None\<close>
  (the API client stores the \<open>open\<close> of a candle as it comes, and that may be a JSON
  null).  The two counters are the \<open>stats\<close> dict of the class.
\<close>

record cache_manager =
  current_price_cache :: "(string \<times> real \<times> real) list"
  historical_price_cache :: "((string \<times> string) \<times> real option) list"
  cache_hits :: nat
  cache_misses :: nat

text \<open>
  The cache file.  It is missing, or unreadable as JSON, or it holds the object that
  \<open>save_to_file\<close> writes, of which only the \<open>historical\<close> dict is ever read back.
  \<open>writable\<close> says whether opening the file for writing succeeds, and \<open>save_calls\<close>
  counts the calls of \<open>save_to_file\<close> (it is not a variable of the program: it
  records that persistence was triggered).
\<close>

datatype file_content = Absent | Corrupt | Stored "(string \<times> real option) list"

record disk =
  content :: file_content
  writable :: bool
  save_calls :: nat

text \<open>\<open>s.split(c)\<close> for a one-character separator.\<close>

fun split_char :: "char \<Rightarrow> string \<Rightarrow> string list" where
  "split_char c [] = [[]]"
| "split_char c (x # xs) =
     (if x = c then [] # split_char c xs
      else (case split_char c xs of
              w # ws \<Rightarrow> (x # w) # ws
            | [] \<Rightarrow> [[x]]))"

text \<open>
  The loop of \<open>load_from_file\<close> over the items of the stored dict.  Unpacking
  \<open>key_str.split('|')\<close> into two names raises ValueError unless there are exactly two
  parts; the exception ends the loop and is caught by the caller, and the entries stored
  so far stay.
\<close>

fun load_items ::
  "(string \<times> real option) list \<Rightarrow> ((string \<times> string) \<times> real option) list
     \<Rightarrow> ((string \<times> string) \<times> real option) list" where
  "load_items [] h = h"
| "load_items ((key_str, price) # rest) h =
     (case split_char CHR ''|'' key_str of
        [ticker, date] \<Rightarrow> load_items rest (AList.update (ticker, date) price h)
      | _ \<Rightarrow> h)"

definition load_from_file :: "disk \<Rightarrow> cache_manager \<Rightarrow> cache_manager" where
  "load_from_file d c =
     (case content d of
        Absent \<Rightarrow> c
      | Corrupt \<Rightarrow> c
      | Stored items \<Rightarrow>
          c\<lparr>historical_price_cache := load_items items (historical_price_cache c)\<rparr>)"

text \<open>The constructor: empty regions, zero counters, then \<open>load_from_file\<close>.\<close>

definition new_cache_manager :: "disk \<Rightarrow> cache_manager" where
  "new_cache_manager d =
     load_from_file d
       \<lparr>current_price_cache = [], historical_price_cache = [],
        cache_hits = 0, cache_misses = 0\<rparr>"

text \<open>The dict comprehension of \<open>save_to_file\<close>: each key becomes
  \<open>ticker|date\<close>.\<close>

fun historical_dict ::
  "((string \<times> string) \<times> real option) list \<Rightarrow> (string \<times> real option) list
     \<Rightarrow> (string \<times> real option) list" where
  "historical_dict [] acc = acc"
| "historical_dict (((ticker, date), price) # rest) acc =
     historical_dict rest (AList.update (ticker @ ''|'' @ date) price acc)"

definition save_to_file :: "cache_manager \<Rightarrow> disk \<Rightarrow> disk" where
  "save_to_file c d =
     (if writable d
      then d\<lparr>content := Stored (historical_dict (historical_price_cache c) []),
             save_calls := save_calls d + 1\<rparr>
      else d\<lparr>save_calls := save_calls d + 1\<rparr>)"

text \<open>\<open>now\<close> is the reading of \<open>datetime.now()\<close>, in seconds.\<close>

definition get_current_price ::
  "real \<Rightarrow> string \<Rightarrow> cache_manager \<Rightarrow> real option \<times> cache_manager" where
  "get_current_price now ticker c =
     (case map_of (current_price_cache c) ticker of
        Some (price, timestamp) \<Rightarrow>
          (let age = now - timestamp in
           if age < CACHE_TTL
           then (Some price, c\<lparr>cache_hits := cache_hits c + 1\<rparr>)
           else (None, c\<lparr>cache_misses := cache_misses c + 1\<rparr>))
      | None \<Rightarrow> (None, c\<lparr>cache_misses := cache_misses c + 1\<rparr>))"

definition set_current_price :: "real \<Rightarrow> string \<Rightarrow> real \<Rightarrow> cache_manager \<Rightarrow> cache_manager" where
  "set_current_price now ticker price c =
     c\<lparr>current_price_cache := AList.update ticker (price, now) (current_price_cache c)\<rparr>"

text \<open>A key that is present is a hit and its value is returned, also when the value
  stored is \<open>None\<close>.\<close>

definition get_historical_price ::
  "string \<Rightarrow> string \<Rightarrow> cache_manager \<Rightarrow> real option \<times> cache_manager" where
  "get_historical_price ticker date c =
     (case map_of (historical_price_cache c) (ticker, date) of
        Some stored \<Rightarrow> (stored, c\<lparr>cache_hits := cache_hits c + 1\<rparr>)
      | None \<Rightarrow> (None, c\<lparr>cache_misses := cache_misses c + 1\<rparr>))"

definition set_historical_price ::
  "string \<Rightarrow> string \<Rightarrow> real option \<Rightarrow> cache_manager \<times> disk \<Rightarrow> cache_manager \<times> disk" where
  "set_historical_price ticker date price cd =
     (let c = (fst cd)\<lparr>historical_price_cache :=
                 AList.update (ticker, date) price (historical_price_cache (fst cd))\<rparr>
      in if length (historical_price_cache c) mod 10 = 0
         then (c, save_to_file c (snd cd))
         else (c, snd cd))"

text \<open>
  Two notions used to state the round trip of the historical region: the item that
  \<open>save_to_file\<close> writes for an entry, and that no ticker and no date of the region
  contains the separator.
\<close>

definition key_str :: "(string \<times> string) \<times> real option \<Rightarrow> string \<times> real option" where
  "key_str e = (fst (fst e) @ ''|'' @ snd (fst e), snd e)"

definition bar_free :: "((string \<times> string) \<times> real option) list \<Rightarrow> bool" where
  "bar_free h =
     list_all (\<lambda>e. CHR ''|'' \<notin> set (fst (fst e)) \<and> CHR ''|'' \<notin> set (snd (fst e))) h"

section \<open>The API client: retries (api_client.py)\<close>

text \<open>
  The client holds the cache and its three counters.  What lies outside the program is
  the \<open>world\<close>: the disk with the cache file, and the log of the arguments of
  \<open>time.sleep\<close>.  The field \<open>guarded\<close> logs the requests handed to
  \<open>_api_call_with_retry\<close>; it is no variable of the program and is only written.
\<close>

record api_client =
  cache :: cache_manager
  total_calls :: nat
  retries :: nat
  failures :: nat

datatype request = Quotes "string list" | History string string

record world =
  storage :: disk
  slept :: "nat list"
  guarded :: "request list"

text \<open>
  What one execution of the wrapped operation does: it returns a value, or raises
  \<open>requests.exceptions.Timeout\<close>, \<open>requests.exceptions.ConnectionError\<close> or another
  exception.  The wrapped operation \<open>func\<close> is a function of the number of calls the
  client has made before, so that every attempt may end differently.
\<close>

datatype 'a outcome = Returned 'a | Timeout | ConnectionError | OtherException

text \<open>The loop \<open>for attempt in range(MAX_RETRIES)\<close> of \<open>_api_call_with_retry\<close>;
  \<open>None\<close> is the value the source returns on failure.\<close>

fun retry_loop ::
  "(nat \<Rightarrow> 'a outcome) \<Rightarrow> nat list \<Rightarrow> api_client \<times> world
     \<Rightarrow> 'a option \<times> api_client \<times> world" where
  "retry_loop func [] (a, w) = (None, a, w)"
| "retry_loop func (attempt # rest) (a, w) =
     (let a1 = a\<lparr>total_calls := total_calls a + 1\<rparr> in
      case func (total_calls a) of
        Returned v \<Rightarrow> (Some v, a1, w)
      | Timeout \<Rightarrow>
          if attempt < MAX_RETRIES - 1
          then retry_loop func rest
                 (a1\<lparr>retries := retries a1 + 1\<rparr>,
                  w\<lparr>slept := slept w @ [RETRY_BASE_DELAY * 2 ^ attempt]\<rparr>)
          else (None, a1\<lparr>failures := failures a1 + 1\<rparr>, w)
      | ConnectionError \<Rightarrow>
          if attempt < MAX_RETRIES - 1
          then retry_loop func rest
                 (a1\<lparr>retries := retries a1 + 1\<rparr>,
                  w\<lparr>slept := slept w @ [RETRY_BASE_DELAY * 2 ^ attempt]\<rparr>)
          else (None, a1\<lparr>failures := failures a1 + 1\<rparr>, w)
      | OtherException \<Rightarrow> (None, a1\<lparr>failures := failures a1 + 1\<rparr>, w))"

definition api_call_with_retry ::
  "(nat \<Rightarrow> 'a outcome) \<Rightarrow> api_client \<times> world \<Rightarrow> 'a option \<times> api_client \<times> world" where
  "api_call_with_retry func aw = retry_loop func [0..<MAX_RETRIES] aw"

section \<open>The portfolio validator (portfolio_validator.py)\<close>

text \<open>
  An allocation is the list of its investments, each a ticker with a share count; the
  price map is a dict from ticker to price.  The messages of \<open>validate_portfolio\<close>
  are format strings over floats; they are modelled by a datatype that keeps the values
  printed.
\<close>

type_synonym allocation = "(string \<times> int) list"

type_synonym price_map = "(string \<times> real) list"








text \<open>
  The price of an investment and the cost of an allocation, for stating properties: the
  sum over the investments of shares times price.  Where the program needs the price of
  a ticker that the price map lacks it raises KeyError (\<open>current_cost\<close> below);
  \<open>price_key\<close> is only used on investments whose ticker has a price.
\<close>

definition price_key :: "price_map \<Rightarrow> string \<times> int \<Rightarrow> real" where
  "price_key prices e = (case map_of prices (fst e) of Some price \<Rightarrow> price | None \<Rightarrow> 0)"

definition cost_of :: "price_map \<Rightarrow> allocation \<Rightarrow> real" where
  "cost_of prices portfolio = (\<Sum>e\<leftarrow>portfolio. real_of_int (snd e) * price_key prices e)"

definition priced :: "price_map \<Rightarrow> allocation \<Rightarrow> bool" where
  "priced prices portfolio = list_all (\<lambda>e. map_of prices (fst e) \<noteq> None) portfolio"

text \<open>\<open>sum(inv['shares'] * prices[inv['ticker']] for inv in portfolio)\<close>.\<close>

fun current_cost :: "price_map \<Rightarrow> allocation \<Rightarrow> py_error + real" where
  "current_cost prices [] = Inr 0"
| "current_cost prices ((ticker, shares) # rest) =
     (case map_of prices ticker of
        None \<Rightarrow> Inl KeyError
      | Some price \<Rightarrow>
          (case current_cost prices rest of
             Inl e \<Rightarrow> Inl e
           | Inr c \<Rightarrow> Inr (real_of_int shares * price + c)))"

text \<open>\<open>min\<close> of a list of values; Python raises ValueError on an empty one.\<close>

fun py_min :: "real list \<Rightarrow> py_error + real" where
  "py_min [] = Inl ValueError"
| "py_min (x # xs) = Inr (fold min xs x)"

text \<open>
  The inner loop of \<open>optimize_budget_usage\<close>: the first investment of the list with
  the ticker gets the additional shares.  The flag says whether one was found, which is
  when the source also lowers \<open>remaining\<close>.
\<close>

fun add_shares :: "string \<Rightarrow> int \<Rightarrow> allocation \<Rightarrow> allocation \<times> bool" where
  "add_shares ticker additional_shares [] = ([], False)"
| "add_shares ticker additional_shares ((t, shares) # rest) =
     (if t = ticker then ((t, shares + additional_shares) # rest, True)
      else (case add_shares ticker additional_shares rest of
              (rest', found) \<Rightarrow> ((t, shares) # rest', found)))"

text \<open>The outer loop, over the investments sorted by price, with the early
  \<open>break\<close>.\<close>

fun optimize_loop :: "price_map \<Rightarrow> allocation \<Rightarrow> allocation \<times> real \<Rightarrow> py_error + allocation" where
  "optimize_loop prices [] (optimized, remaining) = Inr optimized"
| "optimize_loop prices ((ticker, shares) # rest) (optimized, remaining) =
     (case map_of prices ticker of
        None \<Rightarrow> Inl KeyError
      | Some price \<Rightarrow>
          if price = 0 then Inl ZeroDivisionError
          else
            (let additional_shares = py_int (remaining / price);
                 step =
                   (if additional_shares > 0
                    then (case add_shares ticker additional_shares optimized of
                            (optimized', found) \<Rightarrow>
                              (optimized',
                               if found then remaining - real_of_int additional_shares * price
                               else remaining))
                    else (optimized, remaining))
             in case py_min (map snd prices) of
                  Inl e \<Rightarrow> Inl e
                | Inr cheapest \<Rightarrow>
                    if snd step < cheapest then Inr (fst step)
                    else optimize_loop prices rest step))"

definition optimize_budget_usage ::
  "allocation \<Rightarrow> real \<Rightarrow> price_map \<Rightarrow> py_error + allocation" where
  "optimize_budget_usage portfolio budget prices =
     (if portfolio = [] then Inr portfolio
      else case current_cost prices portfolio of
             Inl e \<Rightarrow> Inl e
           | Inr cost \<Rightarrow>
               (let remaining = budget * TARGET_BUDGET_USAGE - cost in
                if remaining < 0 then Inr portfolio
                else optimize_loop prices (sort_key (price_key prices) portfolio)
                       (portfolio, remaining)))"

text \<open>
  Two notions for the proofs about the optimizer: \<open>grown a r\<close> says that \<open>r\<close> has the
  tickers of \<open>a\<close> in the same order with share counts at least as large, and
  \<open>step_of\<close> is one pass of the body of the outer loop on its state.
\<close>

definition grown :: "allocation \<Rightarrow> allocation \<Rightarrow> bool" where
  "grown a r = (map fst r = map fst a \<and> list_all2 (\<lambda>x y. snd x \<le> snd y) a r)"

definition step_of :: "string \<Rightarrow> real \<Rightarrow> allocation \<times> real \<Rightarrow> allocation \<times> real" where
  "step_of t price st =
     (let k = py_int (snd st / price) in
      if k > 0
      then (case add_shares t k (fst st) of
              (opt', found) \<Rightarrow> (opt', if found then snd st - real_of_int k * price else snd st))
      else st)"

section \<open>The API client: fetching prices (api_client.py)\<close>

text \<open>
  The two remote services are parameters.  \<open>quotes_api need n\<close> is what the POST of
  the ticker list \<open>need\<close> does when the client has made \<open>n\<close> calls before: it raises, or
  it returns the parsed JSON of the response.  The code only tests that value for truth
  and iterates over it, so three shapes are told apart: a falsy value (\<open>None\<close>, an
  empty list, ...); a value that cannot be iterated (a nonzero number, \<open>true\<close>), on
  which the \<open>for\<close> raises TypeError; and a sequence of elements.  An element is a JSON
  object, of which the code reads \<open>item.get('ticker')\<close> and \<open>item.get('last')\<close>
  (\<open>None\<close> for a key that is absent or null; a ticker that is present is a string and a
  price that is present a number), or it is something without a \<open>get\<close> method, on
  which the call raises AttributeError (the elements of a list that are no objects, the
  keys of an object, the characters of a string).

  \<open>history_api ticker date n\<close> is the GET of the history of a ticker for a day.  Of
  its value the code reads \<open>data[0]['open']\<close>, inside a \<open>try\<close>: the first candle has
  a number there, or a JSON null, or nothing that can be read (no such key, or the
  element is no object).  \<open>valid_date\<close> says whether
  \<open>datetime.strptime(date_str, '%Y-%m-%d')\<close> and the two \<open>timestamp()\<close> calls
  succeed.
\<close>

datatype quote_elem = Quote "string option" "real option" | Not_an_object

datatype quotes_json = Falsy | Not_iterable | Elements "quote_elem list"

datatype candle = Open real | Null_open | No_open

type_synonym quotes_service = "string list \<Rightarrow> nat \<Rightarrow> quotes_json outcome"

type_synonym history_service = "string \<Rightarrow> string \<Rightarrow> nat \<Rightarrow> candle list outcome"

text \<open>
  The first loop of \<open>get_current_prices\<close>.  Each requested ticker comes with the
  reading of the clock at its lookup.
\<close>

fun check_current ::
  "(string \<times> real) list \<Rightarrow> cache_manager \<Rightarrow> price_map \<times> string list
     \<Rightarrow> (price_map \<times> string list) \<times> cache_manager" where
  "check_current [] c (prices, need_fetch) = ((prices, need_fetch), c)"
| "check_current ((ticker, now) # rest) c (prices, need_fetch) =
     (case get_current_price now ticker c of
        (Some cached_price, c') \<Rightarrow>
          check_current rest c' (AList.update ticker cached_price prices, need_fetch)
      | (None, c') \<Rightarrow> check_current rest c' (prices, need_fetch @ [ticker]))"

text \<open>
  The loop over the elements of the response, which is not inside any \<open>try\<close>: an
  element without \<open>get\<close> raises AttributeError, and what was stored before stays
  stored.  \<open>if ticker and price\<close> holds for a nonempty ticker and a nonzero price.
  \<open>now\<close> is the clock at the write-through.
\<close>

fun store_items ::
  "real \<Rightarrow> quote_elem list \<Rightarrow> price_map \<times> cache_manager
     \<Rightarrow> (py_error + price_map) \<times> cache_manager" where
  "store_items now [] (prices, c) = (Inr prices, c)"
| "store_items now (Not_an_object # rest) (prices, c) = (Inl AttributeError, c)"
| "store_items now (Quote ticker_field last_field # rest) (prices, c) =
     (case (ticker_field, last_field) of
        (Some ticker, Some p) \<Rightarrow>
          if ticker \<noteq> [] \<and> p \<noteq> 0
          then store_items now rest
                 (AList.update ticker p prices, set_current_price now ticker p c)
          else store_items now rest (prices, c)
      | _ \<Rightarrow> store_items now rest (prices, c))"

text \<open>\<open>get_current_prices\<close> returns the mapping or lets an exception of the loop
  over the response escape; the client and the world are as the call leaves them.\<close>

definition get_current_prices ::
  "quotes_service \<Rightarrow> real \<Rightarrow> (string \<times> real) list \<Rightarrow> api_client \<times> world
     \<Rightarrow> (py_error + price_map) \<times> api_client \<times> world" where
  "get_current_prices quotes_api now_w lookups aw =
     (case check_current lookups (cache (fst aw)) ([], []) of
        ((prices, need_fetch), c) \<Rightarrow>
          (let a = (fst aw)\<lparr>cache := c\<rparr> in
           if need_fetch = [] then (Inr prices, a, snd aw)
           else (case api_call_with_retry (quotes_api need_fetch)
                        (a, (snd aw)\<lparr>guarded := guarded (snd aw) @ [Quotes need_fetch]\<rparr>) of
                   (Some (Elements (item # items)), a', w') \<Rightarrow>
                     (case store_items now_w (item # items) (prices, cache a') of
                        (result, c') \<Rightarrow> (result, a'\<lparr>cache := c'\<rparr>, w'))
                 | (Some Not_iterable, a', w') \<Rightarrow> (Inl TypeError, a', w')
                 | (_, a', w') \<Rightarrow> (Inr prices, a', w'))))"

text \<open>
  \<open>APIClient.get_historical_price\<close>; the name \<open>get_historical_price\<close> is taken by the
  method of the cache that it calls first.  An exception of the date conversion or of
  \<open>data[0]['open']\<close> is caught by the \<open>except Exception\<close> of the method, which then
  returns \<open>None\<close>.  A null \<open>open\<close> is read without an exception: it is stored in the
  cache as it is, and returned.
\<close>

definition client_get_historical_price ::
  "(string \<Rightarrow> bool) \<Rightarrow> history_service \<Rightarrow> string \<Rightarrow> string \<Rightarrow> api_client \<times> world
     \<Rightarrow> real option \<times> api_client \<times> world" where
  "client_get_historical_price valid_date history_api ticker date_str aw =
     (case get_historical_price ticker date_str (cache (fst aw)) of
        (Some cached_price, c) \<Rightarrow> (Some cached_price, (fst aw)\<lparr>cache := c\<rparr>, snd aw)
      | (None, c) \<Rightarrow>
          (let a = (fst aw)\<lparr>cache := c\<rparr> in
           if \<not> valid_date date_str then (None, a, snd aw)
           else (case api_call_with_retry (history_api ticker date_str)
                        (a, (snd aw)\<lparr>guarded := guarded (snd aw) @ [History ticker date_str]\<rparr>) of
                   (Some (Open p # candles), a', w') \<Rightarrow>
                     (case set_historical_price ticker date_str (Some p)
                             (cache a', storage w') of
                        (c', d') \<Rightarrow> (Some p, a'\<lparr>cache := c'\<rparr>, w'\<lparr>storage := d'\<rparr>))
                 | (Some (Null_open # candles), a', w') \<Rightarrow>
                     (case set_historical_price ticker date_str None
                             (cache a', storage w') of
                        (c', d') \<Rightarrow> (None, a'\<lparr>cache := c'\<rparr>, w'\<lparr>storage := d'\<rparr>))
                 | (_, a', w') \<Rightarrow> (None, a', w'))))"

text \<open>The first loop of \<open>get_historical_prices_concurrent\<close>.\<close>

fun check_historical ::
  "string list \<Rightarrow> string \<Rightarrow> cache_manager \<Rightarrow> price_map \<times> string list
     \<Rightarrow> (price_map \<times> string list) \<times> cache_manager" where
  "check_historical [] date_str c (prices, need_fetch) = ((prices, need_fetch), c)"
| "check_historical (ticker # rest) date_str c (prices, need_fetch) =
     (case get_historical_price ticker date_str c of
        (Some cached_price, c') \<Rightarrow>
          check_historical rest date_str c' (AList.update ticker cached_price prices, need_fetch)
      | (None, c') \<Rightarrow> check_historical rest date_str c' (prices, need_fetch @ [ticker]))"

text \<open>
  The tasks submitted to the thread pool, one call of \<open>get_historical_price\<close> per
  ticker of \<open>need_fetch\<close>, and the merge of their results.  The tasks are run one after
  the other in the order of submission; the threads of the source may interleave, and
  \<open>as_completed\<close> may merge the results in another order.
\<close>

fun fetch_missing ::
  "(string \<Rightarrow> bool) \<Rightarrow> history_service \<Rightarrow> string \<Rightarrow> string list
     \<Rightarrow> price_map \<times> api_client \<times> world \<Rightarrow> price_map \<times> api_client \<times> world" where
  "fetch_missing valid_date history_api date_str [] (prices, aw) = (prices, aw)"
| "fetch_missing valid_date history_api date_str (ticker # rest) (prices, aw) =
     (case client_get_historical_price valid_date history_api ticker date_str aw of
        (Some p, aw') \<Rightarrow>
          fetch_missing valid_date history_api date_str rest (AList.update ticker p prices, aw')
      | (None, aw') \<Rightarrow> fetch_missing valid_date history_api date_str rest (prices, aw'))"

definition get_historical_prices_concurrent ::
  "(string \<Rightarrow> bool) \<Rightarrow> history_service \<Rightarrow> string list \<Rightarrow> string \<Rightarrow> api_client \<times> world
     \<Rightarrow> price_map \<times> api_client \<times> world" where
  "get_historical_prices_concurrent valid_date history_api tickers date_str aw =
     (case check_historical tickers date_str (cache (fst aw)) ([], []) of
        ((prices, need_fetch), c) \<Rightarrow>
          fetch_missing valid_date history_api date_str need_fetch
            (prices, (fst aw)\<lparr>cache := c\<rparr>, snd aw))"

text \<open>
  For stating what is fetched: the price the cache holds for a ticker on a date, the
  price of the current region that is still fresh at a given time, and the tickers of a
  request that the cache does not resolve.
\<close>

definition cached_historical :: "cache_manager \<Rightarrow> string \<Rightarrow> string \<Rightarrow> real option" where
  "cached_historical c date_str t =
     (case map_of (historical_price_cache c) (t, date_str) of
        Some stored \<Rightarrow> stored
      | None \<Rightarrow> None)"

definition fresh_price :: "cache_manager \<Rightarrow> real \<Rightarrow> string \<Rightarrow> real option" where
  "fresh_price c now t =
     (case map_of (current_price_cache c) t of
        Some (p, ts) \<Rightarrow> if now - ts < CACHE_TTL then Some p else None
      | None \<Rightarrow> None)"

definition missed_current :: "cache_manager \<Rightarrow> (string \<times> real) list \<Rightarrow> string list" where
  "missed_current c lookups =
     map fst (filter (\<lambda>l. fresh_price c (snd l) (fst l) = None) lookups)"

definition missed_historical :: "cache_manager \<Rightarrow> string \<Rightarrow> string list \<Rightarrow> string list" where
  "missed_historical c date_str tickers =
     filter (\<lambda>t. cached_historical c date_str t = None) tickers"

text \<open>
  A scenario: twenty tickers of the universe, a client whose cache holds the first five
  of them in both regions, a quotes service that prices every requested ticker at 10,
  and a history service that times out for JNJ and returns one candle otherwise.
\<close>

definition twenty_tickers :: "string list" where
  "twenty_tickers =
     [''AAPL'', ''MSFT'', ''GOOG'', ''AMZN'', ''NVDA'', ''META'', ''TSLA'', ''BRK.B'', ''V'',
      ''JNJ'', ''WMT'', ''JPM'', ''MA'', ''PG'', ''UNH'', ''HD'', ''CVX'', ''MRK'', ''ABBV'',
      ''KO'']"

definition warm_client :: api_client where
  "warm_client =
     \<lparr>cache =
        \<lparr>current_price_cache =
           [(''AAPL'', 150, 0), (''MSFT'', 300, 0), (''GOOG'', 140, 0), (''AMZN'', 130, 0),
            (''NVDA'', 450, 0)],
         historical_price_cache =
           [((''AAPL'', ''2024-01-02''), Some 185), ((''MSFT'', ''2024-01-02''), Some 370),
            ((''GOOG'', ''2024-01-02''), Some 139), ((''AMZN'', ''2024-01-02''), Some 149),
            ((''NVDA'', ''2024-01-02''), Some 481)],
         cache_hits = 0, cache_misses = 0\<rparr>,
      total_calls = 0, retries = 0, failures = 0\<rparr>"

definition quiet_world :: world where
  "quiet_world =
     \<lparr>storage = \<lparr>content = Absent, writable = True, save_calls = 0\<rparr>,
      slept = [], guarded = []\<rparr>"

definition quotes_ten :: quotes_service where
  "quotes_ten need n = Returned (Elements (map (\<lambda>t. Quote (Some t) (Some 10)) need))"

definition history_flaky :: history_service where
  "history_flaky t d n = (if t = ''JNJ'' then Timeout else Returned [Open 20])"

section \<open>The stock universe and the strategies (config.py, strategies.py)\<close>

record stock =
  ticker :: string
  sector :: string

text \<open>A stock with its price, the dict \<open>{**stock, 'price': ...}\<close> of the source.\<close>

record priced_stock = stock +
  price :: real

definition STOCKS :: "stock list" where
  "STOCKS = map (\<lambda>(t, s). \<lparr>ticker = t, sector = s\<rparr>)
     [
      (''AAPL'', ''Technology''), (''MSFT'', ''Technology''),
      (''GOOG'', ''Technology''), (''AMZN'', ''Consumer Cyclical''),
      (''NVDA'', ''Technology''), (''META'', ''Communication Services''),
      (''TSLA'', ''Consumer Cyclical''), (''BRK.B'', ''Financial Services''),
      (''V'', ''Financial Services''), (''JNJ'', ''Healthcare''),
      (''WMT'', ''Consumer Defensive''), (''JPM'', ''Financial Services''),
      (''MA'', ''Financial Services''), (''PG'', ''Consumer Defensive''),
      (''UNH'', ''Healthcare''), (''HD'', ''Consumer Cyclical''),
      (''CVX'', ''Energy''), (''MRK'', ''Healthcare''),
      (''ABBV'', ''Healthcare''), (''KO'', ''Consumer Defensive''),
      (''PEP'', ''Consumer Defensive''), (''AVGO'', ''Technology''),
      (''COST'', ''Consumer Defensive''), (''MCD'', ''Consumer Cyclical''),
      (''TMO'', ''Healthcare''), (''CSCO'', ''Technology''),
      (''ACN'', ''Technology''), (''DHR'', ''Healthcare''),
      (''VZ'', ''Communication Services''), (''ADBE'', ''Technology''),
      (''NFLX'', ''Communication Services''), (''NKE'', ''Consumer Cyclical''),
      (''CRM'', ''Technology''), (''ORCL'', ''Technology''),
      (''ABT'', ''Healthcare''), (''PFE'', ''Healthcare''),
      (''INTC'', ''Technology''), (''DIS'', ''Communication Services''),
      (''CMCSA'', ''Communication Services''), (''AMD'', ''Technology''),
      (''T'', ''Communication Services''), (''COP'', ''Energy''),
      (''NEE'', ''Utilities''), (''UPS'', ''Industrials''),
      (''IBM'', ''Technology''), (''BA'', ''Industrials''),
      (''CAT'', ''Industrials''), (''GE'', ''Industrials''),
      (''HON'', ''Industrials''), (''MMM'', ''Industrials''),
      (''DE'', ''Industrials'')
     ]"

text \<open>The client context, as far as the strategies read it.\<close>

record client_context =
  budget :: real
  preferred_sectors :: "string list"
  avoided_sectors :: "string list"
  preference_strength :: int

text \<open>The loop of \<open>select_strategy\<close> over the items of the thresholds dict:
  the first band that holds the strength is returned, the fallback after the loop is
  \<open>diversification\<close>.\<close>

fun select_loop :: "(string \<times> int \<times> int) list \<Rightarrow> int \<Rightarrow> string" where
  "select_loop [] strength = ''diversification''"
| "select_loop ((strategy, min_val, max_val) # rest) strength =
     (if min_val \<le> strength \<and> strength \<le> max_val then strategy
      else select_loop rest strength)"

definition select_strategy :: "client_context \<Rightarrow> string" where
  "select_strategy ctx = select_loop STRATEGY_THRESHOLDS (preference_strength ctx)"

text \<open>
  The stocks of the universe that are not in an avoided sector and have a price, each
  with its price, in the order of \<open>STOCKS\<close>: the list comprehension of
  \<open>_diversification\<close> and the filter at the head of the loop over \<open>STOCKS\<close> in the
  other two strategies.  (The default \<open>float('inf')\<close> of \<open>prices.get\<close> is never
  taken, since the ticker is in \<open>prices\<close>.)
\<close>

definition with_price :: "string list \<Rightarrow> price_map \<Rightarrow> stock \<Rightarrow> priced_stock option" where
  "with_price avoided prices s =
     (if sector s \<in> set avoided then None
      else case map_of prices (ticker s) of
             None \<Rightarrow> None
           | Some p \<Rightarrow> Some \<lparr>ticker = ticker s, sector = sector s, price = p\<rparr>)"

definition candidates_of :: "string list \<Rightarrow> price_map \<Rightarrow> stock list \<Rightarrow> priced_stock list" where
  "candidates_of avoided prices stocks = List.map_filter (with_price avoided prices) stocks"

text \<open>\<open>sector_counts.get(sector, 0)\<close>.\<close>

definition get_count :: "(string \<times> nat) list \<Rightarrow> string \<Rightarrow> nat" where
  "get_count sector_counts sec = (case map_of sector_counts sec of Some n \<Rightarrow> n | None \<Rightarrow> 0)"

text \<open>The selection loop of \<open>_diversification\<close>.\<close>

fun select_diverse ::
  "nat \<Rightarrow> nat \<Rightarrow> priced_stock list \<Rightarrow> priced_stock list \<times> (string \<times> nat) list
     \<Rightarrow> priced_stock list" where
  "select_diverse target_stocks max_per_sector [] (selected, sector_counts) = selected"
| "select_diverse target_stocks max_per_sector (s # rest) (selected, sector_counts) =
     (if length selected \<ge> target_stocks then selected
      else if get_count sector_counts (sector s) < max_per_sector
      then select_diverse target_stocks max_per_sector rest
             (selected @ [s],
              AList.update (sector s) (get_count sector_counts (sector s) + 1) sector_counts)
      else select_diverse target_stocks max_per_sector rest (selected, sector_counts))"

text \<open>
  The loop that turns a budget per stock into share counts, common to the equal
  allocation of \<open>_diversification\<close> and the preferred part of the other two
  strategies.  A float division by a price of zero raises ZeroDivisionError; a stock
  whose share count is not positive is left out.
\<close>

fun buy_each :: "real \<Rightarrow> priced_stock list \<Rightarrow> py_error + allocation" where
  "buy_each per_stock_budget [] = Inr []"
| "buy_each per_stock_budget (s # rest) =
     (if price s = 0 then Inl ZeroDivisionError
      else (let shares = py_int (per_stock_budget / price s) in
            case buy_each per_stock_budget rest of
              Inl e \<Rightarrow> Inl e
            | Inr portfolio \<Rightarrow>
                Inr (if shares > 0 then (ticker s, shares) # portfolio else portfolio)))"

definition diversification :: "client_context \<Rightarrow> price_map \<Rightarrow> py_error + allocation" where
  "diversification ctx prices =
     (let safe_budget = budget ctx * INITIAL_BUDGET_USAGE;
          candidates = sort_key price (candidates_of (avoided_sectors ctx) prices STOCKS);
          target_stocks = (if budget ctx < 100 then 3 else if budget ctx < 500 then 5 else 7);
          max_per_sector = max 2 (target_stocks div 2);
          selected = select_diverse target_stocks max_per_sector candidates ([], [])
      in if selected = [] then Inr []
         else buy_each (safe_budget / real (length selected)) selected)"

text \<open>The loop over the other stocks in \<open>_preference_weighted\<close>, with at most one
  stock bought per sector.\<close>

fun buy_others ::
  "nat \<Rightarrow> real \<Rightarrow> priced_stock list \<Rightarrow> allocation \<times> (string \<times> nat) list
     \<Rightarrow> py_error + allocation" where
  "buy_others target_other per_other [] (other_selected, sector_counts) = Inr other_selected"
| "buy_others target_other per_other (s # rest) (other_selected, sector_counts) =
     (if length other_selected \<ge> target_other then Inr other_selected
      else if get_count sector_counts (sector s) < 1
      then (if price s = 0 then Inl ZeroDivisionError
            else (let shares = py_int (per_other / price s) in
                  if shares > 0
                  then buy_others target_other per_other rest
                         (other_selected @ [(ticker s, shares)],
                          AList.update (sector s) 1 sector_counts)
                  else buy_others target_other per_other rest
                         (other_selected, sector_counts)))
      else buy_others target_other per_other rest (other_selected, sector_counts))"

text \<open>The preferred part of \<open>_preference_weighted\<close> and \<open>_high_conviction\<close>: the
  \<open>most\<close> cheapest preferred stocks share the preferred budget.\<close>

definition buy_preferred :: "nat \<Rightarrow> real \<Rightarrow> priced_stock list \<Rightarrow> py_error + allocation" where
  "buy_preferred most preferred_budget preferred_stocks =
     (if preferred_stocks = [] then Inr []
      else (let target_preferred = min most (length preferred_stocks);
                per_preferred = preferred_budget / real target_preferred
            in buy_each per_preferred (take target_preferred preferred_stocks)))"

definition preference_weighted :: "client_context \<Rightarrow> price_map \<Rightarrow> py_error + allocation" where
  "preference_weighted ctx prices =
     (let preferred_budget = budget ctx * (60 / 100);
          other_budget = budget ctx * (36 / 100);
          universe = candidates_of (avoided_sectors ctx) prices STOCKS;
          preferred_stocks =
            sort_key price (filter (\<lambda>s. sector s \<in> set (preferred_sectors ctx)) universe);
          other_stocks =
            sort_key price (filter (\<lambda>s. sector s \<notin> set (preferred_sectors ctx)) universe)
      in case buy_preferred 3 preferred_budget preferred_stocks of
           Inl e \<Rightarrow> Inl e
         | Inr preferred_selected \<Rightarrow>
             (if other_stocks = [] then Inr (preferred_selected @ [])
              else (let target_other = min 3 (length other_stocks);
                        per_other = other_budget / real target_other
                    in case buy_others target_other per_other other_stocks ([], []) of
                         Inl e \<Rightarrow> Inl e
                       | Inr other_selected \<Rightarrow> Inr (preferred_selected @ other_selected))))"

definition high_conviction :: "client_context \<Rightarrow> price_map \<Rightarrow> py_error + allocation" where
  "high_conviction ctx prices =
     (let preferred_budget = budget ctx * (80 / 100);
          other_budget = budget ctx * (16 / 100);
          universe = candidates_of (avoided_sectors ctx) prices STOCKS;
          preferred_stocks =
            sort_key price (filter (\<lambda>s. sector s \<in> set (preferred_sectors ctx)) universe);
          other_stocks =
            sort_key price (filter (\<lambda>s. sector s \<notin> set (preferred_sectors ctx)) universe)
      in case buy_preferred 4 preferred_budget preferred_stocks of
           Inl e \<Rightarrow> Inl e
         | Inr preferred_selected \<Rightarrow>
             (case other_stocks of
                [] \<Rightarrow> Inr (preferred_selected @ [])
              | s # rest \<Rightarrow>
                  if other_budget > 0
                  then (if price s = 0 then Inl ZeroDivisionError
                        else (let shares = py_int (other_budget / price s) in
                              Inr (preferred_selected
                                   @ (if shares > 0 then [(ticker s, shares)] else []))))
                  else Inr (preferred_selected @ [])))"

definition build_portfolio :: "string \<Rightarrow> client_context \<Rightarrow> price_map \<Rightarrow> py_error + allocation" where
  "build_portfolio strategy ctx prices =
     (if strategy = ''diversification'' then diversification ctx prices
      else if strategy = ''preference_weighted'' then preference_weighted ctx prices
      else if strategy = ''high_conviction'' then high_conviction ctx prices
      else diversification ctx prices)"

text \<open>
  Notions for the proofs about the strategies: a list of priced stocks is consistent
  with the price map when each carries the price of its ticker; \<open>part_ok\<close> is what
  each part of a built allocation satisfies (its tickers come from the pool, no ticker
  twice, positive share counts, cost within the sub-budget), and \<open>allocation_ok\<close> is
  the invariant of the whole allocation for a given bound on the cost.
\<close>

definition consistent :: "price_map \<Rightarrow> priced_stock list \<Rightarrow> bool" where
  "consistent ps L = list_all (\<lambda>s. map_of ps (ticker s) = Some (price s)) L"

definition part_ok :: "price_map \<Rightarrow> priced_stock list \<Rightarrow> real \<Rightarrow> allocation \<Rightarrow> bool" where
  "part_ok ps L B a =
     (set (map fst a) \<subseteq> ticker ` set L \<and> distinct (map fst a)
      \<and> list_all (\<lambda>e. 0 < snd e) a \<and> cost_of ps a \<le> B)"

definition allocation_ok :: "price_map \<Rightarrow> real \<Rightarrow> allocation \<Rightarrow> bool" where
  "allocation_ok ps B a =
     (distinct (map fst a) \<and> list_all (\<lambda>e. 0 < snd e) a \<and> cost_of ps a \<le> B)"

section \<open>Properties of strategy selection\<close>

text \<open>
  Claim C8.  For every integer preference strength of the context, \<open>select_strategy\<close>
  returns one strategy: \<open>diversification\<close> on [0, 30], \<open>preference_weighted\<close> on [31, 60],
  \<open>high_conviction\<close> on [61, 100], and \<open>diversification\<close> again for every
  strength outside [0, 100].  The three names differ, so exactly one is selected.
\<close>

theorem select_strategy_bands:
  "select_strategy ctx =
     (if 0 \<le> preference_strength ctx \<and> preference_strength ctx \<le> 30
      then ''diversification''
      else if 31 \<le> preference_strength ctx \<and> preference_strength ctx \<le> 60
      then ''preference_weighted''
      else if 61 \<le> preference_strength ctx \<and> preference_strength ctx \<le> 100
      then ''high_conviction''
      else ''diversification'')
   \<and> ''diversification'' \<noteq> ''preference_weighted''
   \<and> ''diversification'' \<noteq> ''high_conviction''
   \<and> ''preference_weighted'' \<noteq> ''high_conviction''"
  by (simp add: select_strategy_def STRATEGY_THRESHOLDS_def)

section \<open>Properties of the price cache\<close>

subsection \<open>Lookup of a current price\<close>

lemma get_current_price_regions:
  "current_price_cache (snd (get_current_price now t c)) = current_price_cache c
   \<and> historical_price_cache (snd (get_current_price now t c)) = historical_price_cache c"
  by (simp add: get_current_price_def Let_def split: option.split prod.split)

text \<open>
  Claim C5.  \<open>get_current_price\<close> returns the cached price and adds one to the hit
  counter when the ticker has an entry whose age is strictly below the TTL; it returns
  nothing and adds one to the miss counter when the ticker has no entry or the age of
  its entry is at least the TTL.  These cases are exhaustive, so the price is returned
  exactly in the first.  In both the new state is the old one with one counter
  changed: neither region of the cache is written, and the function has no access to
  the API client, so nothing is fetched.
\<close>

theorem get_current_price_hit_or_miss:
  "(map_of (current_price_cache c) t = Some (v, ts) \<and> now - ts < CACHE_TTL \<longrightarrow>
      get_current_price now t c = (Some v, c\<lparr>cache_hits := cache_hits c + 1\<rparr>))
   \<and> (map_of (current_price_cache c) t = None
        \<or> (map_of (current_price_cache c) t = Some (v, ts) \<and> CACHE_TTL \<le> now - ts) \<longrightarrow>
      get_current_price now t c = (None, c\<lparr>cache_misses := cache_misses c + 1\<rparr>))
   \<and> (fst (get_current_price now t c) = Some v \<longleftrightarrow>
        (\<exists>ts'. map_of (current_price_cache c) t = Some (v, ts') \<and> now - ts' < CACHE_TTL))"
  by (auto simp add: get_current_price_def Let_def split: option.split prod.split)

theorem get_current_price_hit_or_miss_witness:
  "get_current_price 299 ''AAPL''
     \<lparr>current_price_cache = [(''AAPL'', 150, 0)], historical_price_cache = [],
      cache_hits = 4, cache_misses = 7\<rparr>
     = (Some 150, \<lparr>current_price_cache = [(''AAPL'', 150, 0)], historical_price_cache = [],
                   cache_hits = 5, cache_misses = 7\<rparr>)
   \<and> get_current_price 300 ''AAPL''
     \<lparr>current_price_cache = [(''AAPL'', 150, 0)], historical_price_cache = [],
      cache_hits = 4, cache_misses = 7\<rparr>
     = (None, \<lparr>current_price_cache = [(''AAPL'', 150, 0)], historical_price_cache = [],
                cache_hits = 4, cache_misses = 8\<rparr>)
   \<and> get_current_price 10 ''MSFT''
     \<lparr>current_price_cache = [(''AAPL'', 150, 0)], historical_price_cache = [],
      cache_hits = 4, cache_misses = 7\<rparr>
     = (None, \<lparr>current_price_cache = [(''AAPL'', 150, 0)], historical_price_cache = [],
                cache_hits = 4, cache_misses = 8\<rparr>)"
  using get_current_price_hit_or_miss
          [of "\<lparr>current_price_cache = [(''AAPL'', 150, 0)], historical_price_cache = [],
                cache_hits = 4, cache_misses = 7\<rparr>" "''AAPL''" 150 0 299]
        get_current_price_hit_or_miss
          [of "\<lparr>current_price_cache = [(''AAPL'', 150, 0)], historical_price_cache = [],
                cache_hits = 4, cache_misses = 7\<rparr>" "''AAPL''" 150 0 300]
        get_current_price_hit_or_miss
          [of "\<lparr>current_price_cache = [(''AAPL'', 150, 0)], historical_price_cache = [],
                cache_hits = 4, cache_misses = 7\<rparr>" "''MSFT''" 150 0 10]
  by (simp add: CACHE_TTL_def)

subsection \<open>Saving and loading the historical region\<close>

lemma split_char_nonempty: "split_char c s \<noteq> []"
  by (induction s) (auto split: list.split)

lemma split_char_no_sep: "c \<notin> set s \<Longrightarrow> split_char c s = [s]"
  by (induction s) auto

lemma split_char_join:
  "c \<notin> set a \<Longrightarrow> split_char c (a @ c # b) = a # split_char c b"
  by (induction a) auto

lemma split_key:
  "CHR ''|'' \<notin> set t \<Longrightarrow> CHR ''|'' \<notin> set d \<Longrightarrow>
     split_char CHR ''|'' (t @ CHR ''|'' # d) = [t, d]"
  by (simp add: split_char_join split_char_no_sep)

lemma update_fresh: "k \<notin> fst ` set al \<Longrightarrow> AList.update k v al = al @ [(k, v)]"
  by (induction al) auto

lemma key_str_inj:
  assumes "CHR ''|'' \<notin> set t" "CHR ''|'' \<notin> set d" "CHR ''|'' \<notin> set t'" "CHR ''|'' \<notin> set d'"
    and "t @ ''|'' @ d = t' @ ''|'' @ d'"
  shows "t = t' \<and> d = d'"
proof -
  have "split_char CHR ''|'' (t @ ''|'' @ d) = split_char CHR ''|'' (t' @ ''|'' @ d')"
    using assms(5) by simp
  then show ?thesis using assms(1-4) by (simp add: split_key)
qed

lemma historical_dict_append:
  "bar_free h \<Longrightarrow> distinct (map fst h) \<Longrightarrow>
   fst ` set acc \<inter> fst ` key_str ` set h = {} \<Longrightarrow>
   historical_dict h acc = acc @ map key_str h"
proof (induction h arbitrary: acc)
  case Nil
  then show ?case by simp
next
  case (Cons e h)
  obtain t d p where e: "e = ((t, d), p)" by (metis prod.exhaust)
  have fresh: "t @ ''|'' @ d \<notin> fst ` set acc"
    using Cons.prems(3) by (auto simp: e key_str_def)
  have bf: "bar_free h" and dist: "distinct (map fst h)"
    using Cons.prems by (auto simp: bar_free_def)
  have notin: "t @ ''|'' @ d \<notin> fst ` key_str ` set h"
  proof
    assume "t @ ''|'' @ d \<in> fst ` key_str ` set h"
    then obtain t' d' p' where in_h: "((t', d'), p') \<in> set h"
      and eq: "t @ ''|'' @ d = t' @ ''|'' @ d'"
      by (auto simp: key_str_def)
    have "CHR ''|'' \<notin> set t' \<and> CHR ''|'' \<notin> set d'"
      using bf in_h by (auto simp: bar_free_def list_all_iff)
    moreover have "CHR ''|'' \<notin> set t \<and> CHR ''|'' \<notin> set d"
      using Cons.prems(1) by (simp add: bar_free_def e)
    ultimately have "t = t' \<and> d = d'" using key_str_inj eq by blast
    then have "(t, d) \<in> fst ` set h" using in_h by force
    then show False using Cons.prems(2) by (simp add: e)
  qed
  have disj: "fst ` set (acc @ [(t @ ''|'' @ d, p)]) \<inter> fst ` key_str ` set h = {}"
    using Cons.prems(3) notin by (auto simp: e key_str_def)
  have "historical_dict (e # h) acc = historical_dict h (acc @ [(t @ ''|'' @ d, p)])"
    using update_fresh [OF fresh, of p] by (simp add: e)
  also have "\<dots> = (acc @ [(t @ ''|'' @ d, p)]) @ map key_str h"
    by (rule Cons.IH [OF bf dist disj])
  finally show ?case by (simp add: e key_str_def)
qed

lemma load_items_append:
  "bar_free h \<Longrightarrow> distinct (map fst (acc @ h)) \<Longrightarrow>
   load_items (map key_str h) acc = acc @ h"
proof (induction h arbitrary: acc)
  case Nil
  then show ?case by simp
next
  case (Cons e h)
  obtain t d p where e: "e = ((t, d), p)" by (metis prod.exhaust)
  have bars: "CHR ''|'' \<notin> set t" "CHR ''|'' \<notin> set d" and bf: "bar_free h"
    using Cons.prems(1) by (auto simp: bar_free_def e)
  have fresh: "(t, d) \<notin> fst ` set acc" using Cons.prems(2) by (auto simp: e)
  have dist: "distinct (map fst ((acc @ [e]) @ h))" using Cons.prems(2) by simp
  have "load_items (map key_str (e # h)) acc = load_items (map key_str h) (acc @ [e])"
    using split_key [OF bars] update_fresh [OF fresh, of p] by (simp add: e key_str_def)
  also have "\<dots> = (acc @ [e]) @ h" by (rule Cons.IH [OF bf dist])
  finally show ?case by simp
qed

lemma save_load_historical:
  assumes "bar_free h" "distinct (map fst h)"
  shows "load_items (historical_dict h []) [] = h"
  using historical_dict_append [OF assms, of "[]"] load_items_append [OF assms(1), of "[]"] assms(2)
  by simp

text \<open>
  Claim C6.  For a historical region that is a dict (no key twice) and whose tickers and
  dates contain no \<open>|\<close>, saving it to a writable disk and constructing a fresh cache
  manager from that disk gives back the same region, entry for entry (hence the same
  mapping from (ticker, date) to price).  A fresh cache manager constructed when the
  file is absent has an empty historical region; \<open>new_cache_manager\<close> is a total
  function, so no error arises.
\<close>

theorem historical_round_trip:
  assumes "distinct (map fst (historical_price_cache c))"
    and "bar_free (historical_price_cache c)"
    and "writable d"
  shows "historical_price_cache (new_cache_manager (save_to_file c d))
           = historical_price_cache c
         \<and> map_of (historical_price_cache (new_cache_manager (save_to_file c d)))
           = map_of (historical_price_cache c)
         \<and> historical_price_cache (new_cache_manager (d\<lparr>content := Absent\<rparr>)) = []"
  using assms save_load_historical [of "historical_price_cache c"]
  by (simp add: new_cache_manager_def load_from_file_def save_to_file_def)

theorem historical_round_trip_witness:
  "historical_price_cache
     (new_cache_manager
        (save_to_file
           \<lparr>current_price_cache = [],
            historical_price_cache =
              [((''AAPL'', ''2024-01-02''), Some 185), ((''BRK.B'', ''2024-01-03''), Some 362)],
            cache_hits = 0, cache_misses = 0\<rparr>
           \<lparr>content = Absent, writable = True, save_calls = 0\<rparr>))
     = [((''AAPL'', ''2024-01-02''), Some 185), ((''BRK.B'', ''2024-01-03''), Some 362)]
   \<and> historical_price_cache
       (new_cache_manager \<lparr>content = Absent, writable = True, save_calls = 0\<rparr>) = []"
  using historical_round_trip
          [of "\<lparr>current_price_cache = [],
                historical_price_cache =
                  [((''AAPL'', ''2024-01-02''), Some 185), ((''BRK.B'', ''2024-01-03''), Some 362)],
                cache_hits = 0, cache_misses = 0\<rparr>"
              "\<lparr>content = Absent, writable = True, save_calls = 0\<rparr>"]
  by (simp add: bar_free_def)

subsection \<open>Writing a historical price\<close>

lemma set_historical_price_stores:
  "map_of (historical_price_cache (fst (set_historical_price t dt p cd))) (t, dt) = Some p"
  by (simp add: set_historical_price_def Let_def AList.update_conv')

lemma set_historical_price_new_key:
  assumes "(t, dt) \<notin> fst ` set (historical_price_cache (fst cd))"
  shows "length (historical_price_cache (fst (set_historical_price t dt p cd)))
           = length (historical_price_cache (fst cd)) + 1
         \<and> save_calls (snd (set_historical_price t dt p cd))
           = save_calls (snd cd)
             + (if (length (historical_price_cache (fst cd)) + 1) mod 10 = 0 then 1 else 0)"
  using update_fresh [OF assms, of p]
  by (simp add: set_historical_price_def Let_def save_to_file_def)

lemma set_historical_price_old_key:
  assumes "map_of (historical_price_cache (fst cd)) (t, dt) = Some q"
  shows "length (historical_price_cache (fst (set_historical_price t dt p cd)))
           = length (historical_price_cache (fst cd))
         \<and> save_calls (snd (set_historical_price t dt p cd))
           = save_calls (snd cd)
             + (if length (historical_price_cache (fst cd)) mod 10 = 0 then 1 else 0)"
proof -
  have "(t, dt) \<in> set (map fst (historical_price_cache (fst cd)))"
    using assms by (metis map_of_eq_None_iff option.distinct(1) set_map)
  then have "length (AList.update (t, dt) p (historical_price_cache (fst cd)))
               = length (historical_price_cache (fst cd))"
    using AList.update_keys [of "(t, dt)" p "historical_price_cache (fst cd)"]
    by (metis length_map)
  then show ?thesis
    by (simp add: set_historical_price_def Let_def save_to_file_def)
qed

text \<open>
  Claim C7.  The price is stored (\<open>set_historical_price_stores\<close>), and a write of a
  new key saves exactly when it brings the region to a multiple of ten entries
  (\<open>set_historical_price_new_key\<close>).  But the test is on the size of the region, not
  on the number of new writes.  A write that overwrites an entry of a region of ten
  entries saves, although it is no new write; and in a cache manager constructed from a
  file of nine entries the first new write saves, although nine more should precede it.
\<close>

theorem set_historical_price_saves_off_count:
  "(let h = map (\<lambda>t. ((t, ''2024-01-02''), Some 100))
              [''AAPL'', ''MSFT'', ''GOOG'', ''AMZN'', ''NVDA'',
               ''META'', ''TSLA'', ''V'', ''JNJ'', ''WMT''];
        c = \<lparr>current_price_cache = [], historical_price_cache = h,
             cache_hits = 0, cache_misses = 0\<rparr>;
        d = \<lparr>content = Absent, writable = True, save_calls = 0\<rparr>
    in map_of h (''AAPL'', ''2024-01-02'') = Some (Some 100)
       \<and> length (historical_price_cache
                   (fst (set_historical_price ''AAPL'' ''2024-01-02'' (Some 101) (c, d)))) = 10
       \<and> save_calls (snd (set_historical_price ''AAPL'' ''2024-01-02'' (Some 101) (c, d))) = 1)
   \<and> (let d = \<lparr>content = Stored (map (\<lambda>t. (t @ ''|2024-01-02'', Some 100))
                      [''AAPL'', ''MSFT'', ''GOOG'', ''AMZN'', ''NVDA'',
                       ''META'', ''TSLA'', ''V'', ''JNJ'']),
                 writable = True, save_calls = 0\<rparr>;
            c = new_cache_manager d
        in length (historical_price_cache c) = 9
           \<and> map_of (historical_price_cache c) (''WMT'', ''2024-01-02'') = None
           \<and> save_calls (snd (set_historical_price ''WMT'' ''2024-01-02'' (Some 100) (c, d))) = 1)"
  by (simp add: set_historical_price_def Let_def save_to_file_def new_cache_manager_def
                load_from_file_def)

section \<open>Properties of the retry loop\<close>

lemma range_MAX_RETRIES: "[0..<MAX_RETRIES] = [0, 1, 2]"
  by (simp add: MAX_RETRIES_def upt_rec)

lemma api_call_with_retry_attempts:
  "api_call_with_retry func aw = retry_loop func [0, 1, 2] aw"
  by (simp add: api_call_with_retry_def range_MAX_RETRIES)

text \<open>
  When the wrapped operation fails with a timeout or a connection failure on every
  attempt, the loop makes three attempts, sleeps before the second and the third, and
  returns \<open>None\<close>.  The cache, the disk and the log of guarded requests are untouched.
\<close>

lemma retry_all_transient:
  assumes "\<forall>i. func i = Timeout \<or> func i = ConnectionError"
  shows "api_call_with_retry func (a, w) =
           (None,
            a\<lparr>total_calls := total_calls a + 3,
              retries := retries a + 2,
              failures := failures a + 1\<rparr>,
            w\<lparr>slept := slept w @ [RETRY_BASE_DELAY * 2 ^ 0, RETRY_BASE_DELAY * 2 ^ 1]\<rparr>)"
proof -
  have f: "\<And>i. func i = Timeout \<or> func i = ConnectionError" using assms by simp
  show ?thesis
    unfolding api_call_with_retry_def range_MAX_RETRIES
    using f [of "total_calls a"] f [of "total_calls a + 1"] f [of "total_calls a + 2"]
    by (auto simp add: MAX_RETRIES_def)
qed

text \<open>
  Claim C2.  The claim, like the comments of the source (\<open>1s, 2s, 4s\<close> in config.py and
  on the line that computes the wait), has three retries with waits of 1s, 2s and 4s
  before the failure value is returned.  The loop runs \<open>range(MAX_RETRIES)\<close> and gives
  up on its last pass instead of waiting: when every attempt times out there are three
  attempts and only two retries, the waits are 1s and 2s, and the wait of 4s that the
  formula gives for the third retry never happens.  The rest is as claimed: \<open>None\<close> is
  returned, the failure counter goes up by one, the retry counter by one per retry and
  the total-calls counter by one per attempt.
\<close>

theorem retry_stops_one_short:
  "api_call_with_retry (\<lambda>i. Timeout :: unit outcome)
     (\<lparr>cache = \<lparr>current_price_cache = [], historical_price_cache = [],
                 cache_hits = 0, cache_misses = 0\<rparr>,
       total_calls = 0, retries = 0, failures = 0\<rparr>,
      \<lparr>storage = \<lparr>content = Absent, writable = True, save_calls = 0\<rparr>,
       slept = [], guarded = []\<rparr>)
   = (None,
      \<lparr>cache = \<lparr>current_price_cache = [], historical_price_cache = [],
                 cache_hits = 0, cache_misses = 0\<rparr>,
       total_calls = 3, retries = 2, failures = 1\<rparr>,
      \<lparr>storage = \<lparr>content = Absent, writable = True, save_calls = 0\<rparr>,
       slept = [1, 2], guarded = []\<rparr>)
   \<and> [1, 2] \<noteq> [RETRY_BASE_DELAY * 2 ^ 0, RETRY_BASE_DELAY * 2 ^ 1, RETRY_BASE_DELAY * 2 ^ 2]
   \<and> (2 :: nat) \<noteq> MAX_RETRIES"
  unfolding api_call_with_retry_def range_MAX_RETRIES
  by (simp add: MAX_RETRIES_def RETRY_BASE_DELAY_def)

section \<open>Properties of the validator\<close>


























section \<open>Properties of the budget optimizer\<close>

lemma grown_refl: "grown a a"
  by (simp add: grown_def list_all2_same)

lemma grown_trans: "grown a b \<Longrightarrow> grown b c \<Longrightarrow> grown a c"
  unfolding grown_def
  by (auto elim: list_all2_trans [rotated])

lemma add_shares_keys: "map fst (fst (add_shares t k opt)) = map fst opt"
  by (induction opt) (auto split: prod.split)

lemma add_shares_found: "snd (add_shares t k opt) \<longleftrightarrow> t \<in> fst ` set opt"
proof (induction opt)
  case Nil
  then show ?case by simp
next
  case (Cons e opt)
  obtain a b where e: "e = (a, b)" by (cases e)
  show ?case using Cons.IH by (cases "add_shares t k opt") (auto simp: e)
qed

lemma add_shares_ge:
  "0 \<le> k \<Longrightarrow> list_all2 (\<lambda>x y. snd x \<le> snd y) opt (fst (add_shares t k opt))"
  by (induction opt) (auto split: prod.split simp: list_all2_same)

lemma add_shares_grown: "0 \<le> k \<Longrightarrow> grown opt (fst (add_shares t k opt))"
  by (simp add: grown_def add_shares_keys add_shares_ge)

lemma add_shares_cost:
  "cost_of ps (fst (add_shares t k opt)) =
     cost_of ps opt + (if t \<in> fst ` set opt then real_of_int k * price_key ps (t, 0) else 0)"
proof (induction opt)
  case Nil
  then show ?case by (simp add: cost_of_def)
next
  case (Cons e opt)
  obtain a b where e: "e = (a, b)" by (cases e)
  show ?case
  proof (cases "a = t")
    case True
    then show ?thesis by (simp add: e cost_of_def price_key_def algebra_simps)
  next
    case False
    then have "t \<in> fst ` set (e # opt) \<longleftrightarrow> t \<in> fst ` set opt" by (auto simp: e)
    then show ?thesis
      using Cons.IH False
      by (cases "add_shares t k opt") (simp add: e cost_of_def)
  qed
qed

lemma py_int_zero: "py_int (0 / p) = 0"
  by (simp add: py_int_def)

lemma py_int_positive:
  assumes "0 \<le> rem" "p \<noteq> 0" "0 < py_int (rem / p)"
  shows "0 < p \<and> real_of_int (py_int (rem / p)) * p \<le> rem"
proof -
  have pos: "0 < p"
  proof (rule ccontr)
    assume "\<not> 0 < p"
    then have "p < 0" using assms(2) by simp
    then have "rem / p \<le> 0" using assms(1) by (simp add: divide_nonneg_neg)
    then have "py_int (rem / p) \<le> 0"
      by (simp add: py_int_def ceiling_le_zero floor_le_zero)
    then show False using assms(3) by simp
  qed
  then have "0 \<le> rem / p" using assms(1) by simp
  then have "py_int (rem / p) = \<lfloor>rem / p\<rfloor>" by (simp add: py_int_def)
  then have "real_of_int (py_int (rem / p)) \<le> rem / p" by simp
  then have "real_of_int (py_int (rem / p)) * p \<le> rem"
    using pos by (simp add: pos_le_divide_eq)
  then show ?thesis using pos by simp
qed


lemma py_min_nonempty: "xs \<noteq> [] \<Longrightarrow> \<exists>m. py_min xs = Inr m"
  by (cases xs) auto

lemma priced_nonempty: "map_of ps t = Some p \<Longrightarrow> map snd ps \<noteq> []"
  by (cases ps) auto

lemma optimize_loop_step:
  "map_of ps t = Some pr \<Longrightarrow> pr \<noteq> 0 \<Longrightarrow> py_min (map snd ps) = Inr m \<Longrightarrow>
   optimize_loop ps ((t, sh) # rest) (opt, rem) =
     (if snd (step_of t pr (opt, rem)) < m then Inr (fst (step_of t pr (opt, rem)))
      else optimize_loop ps rest (step_of t pr (opt, rem)))"
  by (simp add: step_of_def Let_def split: prod.split)

lemma step_of_grown: "grown (fst st) (fst (step_of t pr st))"
  using add_shares_grown [of "py_int (snd st / pr)" "fst st" t]
  by (auto simp: step_of_def Let_def grown_refl split: prod.split)

lemma step_of_keys: "map fst (fst (step_of t pr st)) = map fst (fst st)"
  using step_of_grown [of st t pr] by (simp add: grown_def)

lemma step_of_cost:
  assumes "map_of ps t = Some pr" "pr \<noteq> 0" "0 \<le> snd st"
  shows "cost_of ps (fst (step_of t pr st)) + snd (step_of t pr st) = cost_of ps (fst st) + snd st
         \<and> 0 \<le> snd (step_of t pr st)"
proof (cases "0 < py_int (snd st / pr)")
  case False
  then show ?thesis using assms(3) by (simp add: step_of_def Let_def)
next
  case True
  let ?k = "py_int (snd st / pr)"
  have le: "real_of_int ?k * pr \<le> snd st"
    using py_int_positive [OF assms(3) assms(2) True] by simp
  have pk: "price_key ps (t, 0) = pr" using assms(1) by (simp add: price_key_def)
  obtain opt' found where as: "add_shares t ?k (fst st) = (opt', found)"
    by (cases "add_shares t ?k (fst st)")
  have f: "found \<longleftrightarrow> t \<in> fst ` set (fst st)"
    using add_shares_found [of t ?k "fst st"] as by simp
  have c: "cost_of ps opt' = cost_of ps (fst st) + (if found then real_of_int ?k * pr else 0)"
    using add_shares_cost [of ps t ?k "fst st"] as f pk by simp
  show ?thesis using True as c le assms(3)
    by (simp add: step_of_def Let_def)
qed

lemma optimize_loop_grown:
  "optimize_loop ps srt (opt, rem) = Inr r \<Longrightarrow> grown opt r"
proof (induction srt arbitrary: opt rem)
  case Nil
  then show ?case by (simp add: grown_refl)
next
  case (Cons e srt)
  obtain t sh where e: "e = (t, sh)" by (cases e)
  from Cons.prems obtain pr where p: "map_of ps t = Some pr"
    by (auto simp: e split: option.splits)
  from Cons.prems p have nz: "pr \<noteq> 0" by (auto simp: e split: if_splits)
  obtain m where m: "py_min (map snd ps) = Inr m"
    using py_min_nonempty [OF priced_nonempty [OF p]] by blast
  let ?st = "step_of t pr (opt, rem)"
  have g: "grown opt (fst ?st)" using step_of_grown [of "(opt, rem)" t pr] by simp
  show ?case
  proof (cases "snd ?st < m")
    case True
    then have "r = fst ?st"
      using Cons.prems optimize_loop_step [OF p nz m, of sh srt opt rem] by (simp add: e)
    then show ?thesis using g by simp
  next
    case False
    then have "optimize_loop ps srt (fst ?st, snd ?st) = Inr r"
      using Cons.prems optimize_loop_step [OF p nz m, of sh srt opt rem] by (simp add: e)
    then have "grown (fst ?st) r" by (rule Cons.IH)
    then show ?thesis using g grown_trans by blast
  qed
qed

lemma optimize_loop_cost:
  "0 \<le> rem \<Longrightarrow> optimize_loop ps srt (opt, rem) = Inr r \<Longrightarrow>
   cost_of ps r \<le> cost_of ps opt + rem"
proof (induction srt arbitrary: opt rem)
  case Nil
  then show ?case by simp
next
  case (Cons e srt)
  obtain t sh where e: "e = (t, sh)" by (cases e)
  from Cons.prems obtain pr where p: "map_of ps t = Some pr"
    by (auto simp: e split: option.splits)
  from Cons.prems p have nz: "pr \<noteq> 0" by (auto simp: e split: if_splits)
  obtain m where m: "py_min (map snd ps) = Inr m"
    using py_min_nonempty [OF priced_nonempty [OF p]] by blast
  let ?st = "step_of t pr (opt, rem)"
  have inv: "cost_of ps (fst ?st) + snd ?st = cost_of ps opt + rem" "0 \<le> snd ?st"
    using step_of_cost [OF p nz, of "(opt, rem)"] Cons.prems(1) by simp_all
  show ?case
  proof (cases "snd ?st < m")
    case True
    then have "r = fst ?st"
      using Cons.prems(2) optimize_loop_step [OF p nz m, of sh srt opt rem] by (simp add: e)
    then show ?thesis using inv by simp
  next
    case False
    then have "optimize_loop ps srt (fst ?st, snd ?st) = Inr r"
      using Cons.prems(2) optimize_loop_step [OF p nz m, of sh srt opt rem] by (simp add: e)
    then have "cost_of ps r \<le> cost_of ps (fst ?st) + snd ?st"
      using Cons.IH [OF inv(2)] by simp
    then show ?thesis using inv by linarith
  qed
qed

lemma optimize_loop_returns:
  "list_all (\<lambda>e. \<exists>p. map_of ps (fst e) = Some p \<and> p \<noteq> 0) srt \<Longrightarrow>
   \<exists>r. optimize_loop ps srt (opt, rem) = Inr r"
proof (induction srt arbitrary: opt rem)
  case Nil
  then show ?case by simp
next
  case (Cons e srt)
  obtain t sh where e: "e = (t, sh)" by (cases e)
  from Cons.prems obtain pr where p: "map_of ps t = Some pr" and nz: "pr \<noteq> 0"
    by (auto simp: e)
  obtain m where m: "py_min (map snd ps) = Inr m"
    using py_min_nonempty [OF priced_nonempty [OF p]] by blast
  have "\<exists>r. optimize_loop ps srt (step_of t pr (opt, rem)) = Inr r"
    using Cons.IH [of "fst (step_of t pr (opt, rem))" "snd (step_of t pr (opt, rem))"]
          Cons.prems by simp
  then show ?case
    using optimize_loop_step [OF p nz m, of sh srt opt rem] by (auto simp: e)
qed

lemma optimize_loop_nothing_left:
  "optimize_loop ps srt (opt, 0) = Inr r \<Longrightarrow> r = opt"
proof (induction srt)
  case Nil
  then show ?case by simp
next
  case (Cons e srt)
  obtain t sh where e: "e = (t, sh)" by (cases e)
  from Cons.prems obtain pr where p: "map_of ps t = Some pr"
    by (auto simp: e split: option.splits)
  from Cons.prems p have nz: "pr \<noteq> 0" by (auto simp: e split: if_splits)
  obtain m where m: "py_min (map snd ps) = Inr m"
    using py_min_nonempty [OF priced_nonempty [OF p]] by blast
  have st: "step_of t pr (opt, 0) = (opt, 0)"
    by (simp add: step_of_def py_int_def)
  show ?case
    using Cons.prems Cons.IH optimize_loop_step [OF p nz m, of sh srt opt 0]
    by (auto simp: e st split: if_splits)
qed

lemma current_cost_priced: "priced ps a \<Longrightarrow> current_cost ps a = Inr (cost_of ps a)"
  by (induction a) (auto simp: priced_def cost_of_def price_key_def)

lemma current_cost_Inr: "current_cost ps a = Inr c \<Longrightarrow> priced ps a \<and> c = cost_of ps a"
  by (induction a arbitrary: c)
     (auto simp: priced_def cost_of_def price_key_def split: option.splits sum.splits)

lemma nonzero_priced:
  "list_all (\<lambda>e. \<exists>p. map_of ps (fst e) = Some p \<and> p \<noteq> 0) a \<Longrightarrow> priced ps a"
  by (auto simp: priced_def list_all_iff)

lemma optimize_grown:
  assumes "optimize_budget_usage a b ps = Inr r"
  shows "grown a r"
proof (cases "a = []")
  case True
  then show ?thesis using assms by (simp add: optimize_budget_usage_def grown_refl)
next
  case False
  then obtain c where c: "current_cost ps a = Inr c"
    using assms by (auto simp: optimize_budget_usage_def split: sum.splits)
  show ?thesis
  proof (cases "b * TARGET_BUDGET_USAGE - c < 0")
    case True
    then show ?thesis using assms False c
      by (simp add: optimize_budget_usage_def Let_def grown_refl)
  next
    case False
    then have "optimize_loop ps (sort_key (price_key ps) a) (a, b * TARGET_BUDGET_USAGE - c) = Inr r"
      using assms \<open>a \<noteq> []\<close> c by (simp add: optimize_budget_usage_def Let_def)
    then show ?thesis by (rule optimize_loop_grown)
  qed
qed

lemma optimize_cost:
  assumes "optimize_budget_usage a b ps = Inr r"
  shows "cost_of ps r \<le> max (cost_of ps a) (b * TARGET_BUDGET_USAGE)"
proof (cases "a = []")
  case True
  then show ?thesis using assms by (simp add: optimize_budget_usage_def)
next
  case False
  then obtain c where c: "current_cost ps a = Inr c"
    using assms by (auto simp: optimize_budget_usage_def split: sum.splits)
  then have cc: "c = cost_of ps a" using current_cost_Inr by blast
  show ?thesis
  proof (cases "b * TARGET_BUDGET_USAGE - c < 0")
    case True
    then have "r = a" using assms False c
      by (simp add: optimize_budget_usage_def Let_def)
    then show ?thesis by simp
  next
    case False
    then have "optimize_loop ps (sort_key (price_key ps) a) (a, b * TARGET_BUDGET_USAGE - c) = Inr r"
      using assms \<open>a \<noteq> []\<close> c by (simp add: optimize_budget_usage_def Let_def)
    then have "cost_of ps r \<le> cost_of ps a + (b * TARGET_BUDGET_USAGE - c)"
      using optimize_loop_cost False by simp
    then show ?thesis using cc by simp
  qed
qed

lemma optimize_returns:
  assumes "list_all (\<lambda>e. \<exists>p. map_of ps (fst e) = Some p \<and> p \<noteq> 0) a"
  shows "\<exists>r. optimize_budget_usage a b ps = Inr r"
proof -
  have c: "current_cost ps a = Inr (cost_of ps a)"
    using current_cost_priced [OF nonzero_priced [OF assms]] .
  have "list_all (\<lambda>e. \<exists>p. map_of ps (fst e) = Some p \<and> p \<noteq> 0) (sort_key (price_key ps) a)"
    using assms by (simp add: list_all_iff)
  then show ?thesis
    using optimize_loop_returns [of ps "sort_key (price_key ps) a" a] c
    by (simp add: optimize_budget_usage_def Let_def)
qed

lemma optimize_unchanged:
  assumes "priced ps a" "b * TARGET_BUDGET_USAGE \<le> cost_of ps a"
    and "optimize_budget_usage a b ps = Inr r"
  shows "r = a"
proof (cases "a = []")
  case True
  then show ?thesis using assms by (simp add: optimize_budget_usage_def)
next
  case False
  have c: "current_cost ps a = Inr (cost_of ps a)"
    using current_cost_priced [OF assms(1)] .
  show ?thesis
  proof (cases "b * TARGET_BUDGET_USAGE = cost_of ps a")
    case True
    then show ?thesis
      using assms(3) False c optimize_loop_nothing_left [of ps "sort_key (price_key ps) a" a r]
      by (simp add: optimize_budget_usage_def Let_def)
  next
    case neq: False
    then have "b * TARGET_BUDGET_USAGE - cost_of ps a < 0" using assms(2) by simp
    then show ?thesis using assms(3) False c
      by (simp add: optimize_budget_usage_def Let_def)
  qed
qed

lemma optimize_above_target:
  assumes "priced ps a" "b * TARGET_BUDGET_USAGE < cost_of ps a"
  shows "optimize_budget_usage a b ps = Inr a"
  using assms current_cost_priced [OF assms(1)]
  by (simp add: optimize_budget_usage_def Let_def)

text \<open>
  Claim C10.  Whenever \<open>optimize_budget_usage\<close> returns, the result has the tickers
  of the input in the same order, and every share count is at least the one of the
  input: no position is removed, added or lowered.  It does return whenever the price
  map has a nonzero price for every ticker of the allocation (a missing price raises
  KeyError, and a price of zero, which no quote of the data model has, can raise
  ZeroDivisionError).
\<close>

theorem optimize_budget_usage_frame:
  "(optimize_budget_usage a b ps = Inr r \<longrightarrow>
      map fst r = map fst a \<and> list_all2 (\<lambda>x y. snd x \<le> snd y) a r)
   \<and> (list_all (\<lambda>e. \<exists>p. map_of ps (fst e) = Some p \<and> p \<noteq> 0) a \<longrightarrow>
      (\<exists>r'. optimize_budget_usage a b ps = Inr r'))"
  using optimize_grown [of a b ps r] optimize_returns [of ps a b]
  by (auto simp: grown_def)

theorem optimize_budget_usage_frame_witness:
  "optimize_budget_usage [(''AAPL'', 2), (''WMT'', 1)] 400
       [(''AAPL'', 100), (''WMT'', 50), (''KO'', 60)]
     = Inr [(''AAPL'', 2), (''WMT'', 3)]
   \<and> map fst [(''AAPL'', 2 :: int), (''WMT'', 3)] = map fst [(''AAPL'', 2 :: int), (''WMT'', 1)]
   \<and> list_all2 (\<lambda>x y. snd x \<le> snd y)
        [(''AAPL'', 2 :: int), (''WMT'', 1)] [(''AAPL'', 2 :: int), (''WMT'', 3)]
   \<and> (\<exists>r'. optimize_budget_usage [(''AAPL'', 2), (''WMT'', 1)] 400
                [(''AAPL'', 100), (''WMT'', 50), (''KO'', 60)] = Inr r')"
  using optimize_budget_usage_frame
          [of "[(''AAPL'', 2), (''WMT'', 1)]" 400
              "[(''AAPL'', 100), (''WMT'', 50), (''KO'', 60)]"
              "[(''AAPL'', 2), (''WMT'', 3)]"]
  by (simp add: optimize_budget_usage_def TARGET_BUDGET_USAGE_def price_key_def
                py_int_def Let_def)

text \<open>
  Claim C3.  Whenever \<open>optimize_budget_usage\<close> returns, the cost of the result is at
  most the larger of the cost of the input and the budget times \<open>TARGET_BUDGET_USAGE\<close>:
  the optimizer never takes the cost beyond the target, so a fortiori never beyond it by
  more than one share of any ticker of the allocation, the cheapest included.  When the
  cost of the input is above the target the allocation is returned unchanged, and so it
  is when the cost equals the target and the prices of its tickers are nonzero, as the
  prices of the data model are.
\<close>

theorem optimize_budget_usage_bounded:
  "(optimize_budget_usage a b ps = Inr r \<longrightarrow>
      cost_of ps r \<le> max (cost_of ps a) (b * TARGET_BUDGET_USAGE)
      \<and> (\<forall>e\<in>set a. 0 \<le> price_key ps e \<longrightarrow>
            cost_of ps r \<le> max (cost_of ps a) (b * TARGET_BUDGET_USAGE + price_key ps e)))
   \<and> (priced ps a \<and> b * TARGET_BUDGET_USAGE < cost_of ps a \<longrightarrow>
        optimize_budget_usage a b ps = Inr a)
   \<and> (list_all (\<lambda>e. \<exists>p. map_of ps (fst e) = Some p \<and> p \<noteq> 0) a
        \<and> b * TARGET_BUDGET_USAGE \<le> cost_of ps a \<longrightarrow>
        optimize_budget_usage a b ps = Inr a)"
proof (intro conjI impI ballI)
  assume r: "optimize_budget_usage a b ps = Inr r"
  show "cost_of ps r \<le> max (cost_of ps a) (b * TARGET_BUDGET_USAGE)"
    using optimize_cost [OF r] .
next
  fix e
  assume r: "optimize_budget_usage a b ps = Inr r" and "0 \<le> price_key ps e"
  then show "cost_of ps r \<le> max (cost_of ps a) (b * TARGET_BUDGET_USAGE + price_key ps e)"
    using optimize_cost [OF r] by linarith
next
  assume "priced ps a \<and> b * TARGET_BUDGET_USAGE < cost_of ps a"
  then show "optimize_budget_usage a b ps = Inr a"
    using optimize_above_target by blast
next
  assume h: "list_all (\<lambda>e. \<exists>p. map_of ps (fst e) = Some p \<and> p \<noteq> 0) a
        \<and> b * TARGET_BUDGET_USAGE \<le> cost_of ps a"
  then obtain r' where r': "optimize_budget_usage a b ps = Inr r'"
    using optimize_returns by blast
  then have "r' = a" using optimize_unchanged [OF nonzero_priced] h by blast
  then show "optimize_budget_usage a b ps = Inr a" using r' by simp
qed

theorem optimize_budget_usage_bounded_witness:
  "optimize_budget_usage [(''AAPL'', 2), (''WMT'', 1)] 400
       [(''AAPL'', 100), (''WMT'', 50), (''KO'', 60)]
     = Inr [(''AAPL'', 2), (''WMT'', 3)]
   \<and> cost_of [(''AAPL'', 100), (''WMT'', 50), (''KO'', 60)] [(''AAPL'', 2), (''WMT'', 3)]
       \<le> 400 * TARGET_BUDGET_USAGE
   \<and> cost_of [(''AAPL'', 100), (''WMT'', 50), (''KO'', 60)] [(''AAPL'', 2), (''WMT'', 3)] = 350
   \<and> optimize_budget_usage [(''AAPL'', 2), (''WMT'', 4)] 400
       [(''AAPL'', 100), (''WMT'', 48), (''KO'', 60)]
     = Inr [(''AAPL'', 2), (''WMT'', 4)]
   \<and> cost_of [(''AAPL'', 100), (''WMT'', 48), (''KO'', 60)] [(''AAPL'', 2), (''WMT'', 4)]
       = 400 * TARGET_BUDGET_USAGE"
  using optimize_budget_usage_bounded
          [of "[(''AAPL'', 2), (''WMT'', 1)]" 400
              "[(''AAPL'', 100), (''WMT'', 50), (''KO'', 60)]"
              "[(''AAPL'', 2), (''WMT'', 3)]"]
        optimize_budget_usage_bounded
          [of "[(''AAPL'', 2), (''WMT'', 4)]" 400
              "[(''AAPL'', 100), (''WMT'', 48), (''KO'', 60)]"
              "[(''AAPL'', 2), (''WMT'', 4)]"]
  by (simp add: optimize_budget_usage_def TARGET_BUDGET_USAGE_def price_key_def
                py_int_def Let_def cost_of_def)

section \<open>Properties of the strategies\<close>

lemma STOCKS_distinct: "distinct (map ticker STOCKS)"
  by (simp add: STOCKS_def)

lemma with_price_Some:
  "with_price av ps s = Some c \<Longrightarrow>
     ticker c = ticker s \<and> sector c = sector s \<and> map_of ps (ticker s) = Some (price c)
     \<and> sector s \<notin> set av"
  by (auto simp: with_price_def split: if_splits option.splits)

lemma candidates_of_Nil [simp]: "candidates_of av ps [] = []"
  by (simp add: candidates_of_def List.map_filter_simps)

lemma candidates_of_Cons:
  "candidates_of av ps (s # ss) =
     (case with_price av ps s of None \<Rightarrow> candidates_of av ps ss
      | Some c \<Rightarrow> c # candidates_of av ps ss)"
  by (simp add: candidates_of_def List.map_filter_simps split: option.split)

lemma candidates_of_tickers:
  "ticker ` set (candidates_of av ps ss) \<subseteq> ticker ` set ss"
  by (induction ss) (auto simp: candidates_of_Cons split: option.splits dest: with_price_Some)

lemma candidates_of_distinct:
  "distinct (map ticker ss) \<Longrightarrow> distinct (map ticker (candidates_of av ps ss))"
proof (induction ss)
  case Nil
  then show ?case by simp
next
  case (Cons s ss)
  show ?case
  proof (cases "with_price av ps s")
    case None
    then show ?thesis using Cons by (simp add: candidates_of_Cons)
  next
    case (Some c)
    then have "ticker c = ticker s" using with_price_Some by blast
    moreover have "ticker s \<notin> ticker ` set (candidates_of av ps ss)"
      using candidates_of_tickers [of av ps ss] Cons.prems by auto
    ultimately show ?thesis using Cons Some by (simp add: candidates_of_Cons)
  qed
qed

lemma candidates_of_consistent: "consistent ps (candidates_of av ps ss)"
  by (induction ss)
     (auto simp: consistent_def candidates_of_Cons split: option.splits dest: with_price_Some)


lemma cost_of_Nil [simp]: "cost_of ps [] = 0"
  by (simp add: cost_of_def)

lemma cost_of_Cons:
  "cost_of ps (e # a) = real_of_int (snd e) * price_key ps e + cost_of ps a"
  by (simp add: cost_of_def)

lemma cost_of_append: "cost_of ps (a @ b) = cost_of ps a + cost_of ps b"
  by (simp add: cost_of_def)

lemma bought_cost:
  assumes "0 \<le> per" "map_of ps (ticker s) = Some (price s)" "price s \<noteq> 0"
    and "0 < py_int (per / price s)"
  shows "real_of_int (py_int (per / price s)) * price_key ps (ticker s, k) \<le> per"
  using py_int_positive [OF assms(1) assms(3) assms(4)] assms(2)
  by (simp add: price_key_def)

lemma buy_each_tickers:
  "buy_each per L = Inr a \<Longrightarrow> set (map fst a) \<subseteq> ticker ` set L"
proof (induction L arbitrary: a)
  case Nil
  then show ?case by simp
next
  case (Cons s L)
  from Cons.prems obtain a' where a': "buy_each per L = Inr a'"
    and a: "a = (if py_int (per / price s) > 0 then (ticker s, py_int (per / price s)) # a' else a')"
    by (auto simp: Let_def split: if_splits sum.splits)
  show ?case using Cons.IH [OF a'] a by (auto split: if_splits)
qed

lemma buy_each_distinct:
  "distinct (map ticker L) \<Longrightarrow> buy_each per L = Inr a \<Longrightarrow> distinct (map fst a)"
proof (induction L arbitrary: a)
  case Nil
  then show ?case by simp
next
  case (Cons s L)
  from Cons.prems(2) obtain a' where a': "buy_each per L = Inr a'"
    and a: "a = (if py_int (per / price s) > 0 then (ticker s, py_int (per / price s)) # a' else a')"
    by (auto simp: Let_def split: if_splits sum.splits)
  have "ticker s \<notin> set (map fst a')"
    using buy_each_tickers [OF a'] Cons.prems(1) by auto
  then show ?case using Cons.IH [OF _ a'] Cons.prems(1) a by (auto split: if_splits)
qed

lemma buy_each_positive:
  "buy_each per L = Inr a \<Longrightarrow> list_all (\<lambda>e. 0 < snd e) a"
proof (induction L arbitrary: a)
  case Nil
  then show ?case by simp
next
  case (Cons s L)
  from Cons.prems obtain a' where a': "buy_each per L = Inr a'"
    and a: "a = (if py_int (per / price s) > 0 then (ticker s, py_int (per / price s)) # a' else a')"
    by (auto simp: Let_def split: if_splits sum.splits)
  show ?case using Cons.IH [OF a'] a by (auto split: if_splits)
qed

lemma buy_each_cost:
  "0 \<le> per \<Longrightarrow> consistent ps L \<Longrightarrow> buy_each per L = Inr a \<Longrightarrow>
   cost_of ps a \<le> real (length L) * per"
proof (induction L arbitrary: a)
  case Nil
  then show ?case by simp
next
  case (Cons s L)
  from Cons.prems(3) obtain a' where a': "buy_each per L = Inr a'"
    and a: "a = (if py_int (per / price s) > 0 then (ticker s, py_int (per / price s)) # a' else a')"
    and nz: "price s \<noteq> 0"
    by (auto simp: Let_def split: if_splits sum.splits)
  have cs: "map_of ps (ticker s) = Some (price s)" and cL: "consistent ps L"
    using Cons.prems(2) by (simp_all add: consistent_def)
  have IH: "cost_of ps a' \<le> real (length L) * per"
    using Cons.IH [OF Cons.prems(1) cL a'] .
  show ?case
  proof (cases "py_int (per / price s) > 0")
    case True
    have "real_of_int (py_int (per / price s)) * price_key ps (ticker s, py_int (per / price s)) \<le> per"
      using bought_cost [OF Cons.prems(1) cs nz True] .
    then show ?thesis using IH a True by (simp add: cost_of_Cons algebra_simps)
  next
    case False
    then show ?thesis using IH a Cons.prems(1) by (simp add: algebra_simps)
  qed
qed

lemma buy_others_cases:
  assumes "buy_others tgt per (s # L) (sel, cnt) = Inr a"
  obtains (full) "tgt \<le> length sel" "a = sel"
  | (skip) "\<not> tgt \<le> length sel" "buy_others tgt per L (sel, cnt) = Inr a"
  | (buy) "\<not> tgt \<le> length sel" "price s \<noteq> 0" "0 < py_int (per / price s)"
      "buy_others tgt per L
         (sel @ [(ticker s, py_int (per / price s))], AList.update (sector s) 1 cnt) = Inr a"
proof (cases "tgt \<le> length sel")
  case True
  then have "a = sel" using assms by simp
  then show ?thesis using True full by blast
next
  case nf: False
  show ?thesis
  proof (cases "get_count cnt (sector s) < 1")
    case False
    then have "buy_others tgt per L (sel, cnt) = Inr a" using assms nf by simp
    then show ?thesis using nf skip by blast
  next
    case True
    then have nz: "price s \<noteq> 0" using assms nf by (auto split: if_splits)
    show ?thesis
    proof (cases "0 < py_int (per / price s)")
      case pos: True
      then have "buy_others tgt per L
         (sel @ [(ticker s, py_int (per / price s))], AList.update (sector s) 1 cnt) = Inr a"
        using assms nf nz True by (simp add: Let_def)
      then show ?thesis using nf nz pos buy by blast
    next
      case False
      then have "buy_others tgt per L (sel, cnt) = Inr a"
        using assms nf nz True by (simp add: Let_def)
      then show ?thesis using nf skip by blast
    qed
  qed
qed

lemma buy_others_tickers:
  "buy_others tgt per L (sel, cnt) = Inr a \<Longrightarrow>
   set (map fst a) \<subseteq> set (map fst sel) \<union> ticker ` set L"
proof (induction L arbitrary: sel cnt)
  case Nil
  then show ?case by simp
next
  case (Cons s L)
  from Cons.prems show ?case
  proof (cases rule: buy_others_cases)
    case full
    then show ?thesis by auto
  next
    case skip
    then show ?thesis using Cons.IH [of sel cnt] by auto
  next
    case buy
    then show ?thesis
      using Cons.IH [of "sel @ [(ticker s, py_int (per / price s))]"
                        "AList.update (sector s) 1 cnt"]
      by auto
  qed
qed

lemma buy_others_distinct:
  "distinct (map fst sel) \<Longrightarrow> distinct (map ticker L) \<Longrightarrow>
   set (map fst sel) \<inter> ticker ` set L = {} \<Longrightarrow>
   buy_others tgt per L (sel, cnt) = Inr a \<Longrightarrow> distinct (map fst a)"
proof (induction L arbitrary: sel cnt)
  case Nil
  then show ?case by simp
next
  case (Cons s L)
  have dL: "distinct (map ticker L)" and ns: "ticker s \<notin> ticker ` set L"
    and nsel: "ticker s \<notin> set (map fst sel)"
    and disj: "set (map fst sel) \<inter> ticker ` set L = {}"
    using Cons.prems(2,3) by auto
  from Cons.prems(4) show ?case
  proof (cases rule: buy_others_cases)
    case full
    then show ?thesis using Cons.prems(1) by simp
  next
    case skip
    then show ?thesis using Cons.IH [OF Cons.prems(1) dL disj] by blast
  next
    case buy
    let ?sel = "sel @ [(ticker s, py_int (per / price s))]"
    have d: "distinct (map fst ?sel)" using Cons.prems(1) nsel by simp
    have i: "set (map fst ?sel) \<inter> ticker ` set L = {}" using disj ns by auto
    show ?thesis using Cons.IH [OF d dL i buy(4)] .
  qed
qed

lemma buy_others_positive:
  "list_all (\<lambda>e. 0 < snd e) sel \<Longrightarrow> buy_others tgt per L (sel, cnt) = Inr a \<Longrightarrow>
   list_all (\<lambda>e. 0 < snd e) a"
proof (induction L arbitrary: sel cnt)
  case Nil
  then show ?case by simp
next
  case (Cons s L)
  from Cons.prems(2) show ?case
  proof (cases rule: buy_others_cases)
    case full
    then show ?thesis using Cons.prems(1) by simp
  next
    case skip
    then show ?thesis using Cons.IH [OF Cons.prems(1)] by blast
  next
    case buy
    let ?sel = "sel @ [(ticker s, py_int (per / price s))]"
    have "list_all (\<lambda>e. 0 < snd e) ?sel" using Cons.prems(1) buy(3) by simp
    then show ?thesis using Cons.IH buy(4) by blast
  qed
qed

lemma buy_others_cost:
  "0 \<le> per \<Longrightarrow> consistent ps L \<Longrightarrow> length sel \<le> tgt \<Longrightarrow>
   buy_others tgt per L (sel, cnt) = Inr a \<Longrightarrow>
   cost_of ps a \<le> cost_of ps sel + real (tgt - length sel) * per"
proof (induction L arbitrary: sel cnt)
  case Nil
  then show ?case by simp
next
  case (Cons s L)
  have cs: "map_of ps (ticker s) = Some (price s)" and cL: "consistent ps L"
    using Cons.prems(2) by (simp_all add: consistent_def)
  from Cons.prems(4) show ?case
  proof (cases rule: buy_others_cases)
    case full
    then show ?thesis using Cons.prems(1) by simp
  next
    case skip
    then show ?thesis using Cons.IH [OF Cons.prems(1) cL Cons.prems(3)] by blast
  next
    case buy
    let ?k = "py_int (per / price s)"
    have len: "length (sel @ [(ticker s, ?k)]) \<le> tgt" using buy(1) by simp
    have "cost_of ps a \<le> cost_of ps (sel @ [(ticker s, ?k)])
             + real (tgt - length (sel @ [(ticker s, ?k)])) * per"
      using Cons.IH [OF Cons.prems(1) cL len buy(4)] .
    moreover have "real_of_int ?k * price_key ps (ticker s, ?k) \<le> per"
      using bought_cost [OF Cons.prems(1) cs buy(2) buy(3)] .
    moreover have "real (tgt - length sel) = real (tgt - length (sel @ [(ticker s, ?k)])) + 1"
      using buy(1) by simp
    ultimately show ?thesis
      by (simp add: cost_of_append cost_of_Cons algebra_simps)
  qed
qed

lemma select_diverse_set:
  "set (select_diverse t m L (sel, cnt)) \<subseteq> set sel \<union> set L"
proof (induction L arbitrary: sel cnt)
  case Nil
  then show ?case by simp
next
  case (Cons s L)
  have a: "\<And>cnt'. set (select_diverse t m L (sel, cnt')) \<subseteq> set sel \<union> set (s # L)"
    using Cons.IH [of sel] by auto
  have b: "\<And>cnt'. set (select_diverse t m L (sel @ [s], cnt')) \<subseteq> set sel \<union> set (s # L)"
    using Cons.IH [of "sel @ [s]"] by auto
  show ?case using a b by (simp del: set_simps(2))
qed

lemma select_diverse_distinct:
  "distinct (map ticker (sel @ L)) \<Longrightarrow>
   distinct (map ticker (select_diverse t m L (sel, cnt)))"
proof (induction L arbitrary: sel cnt)
  case Nil
  then show ?case by simp
next
  case (Cons s L)
  have d1: "distinct (map ticker (sel @ L))" and d2: "distinct (map ticker ((sel @ [s]) @ L))"
    and d3: "distinct (map ticker sel)"
    using Cons.prems by auto
  show ?case using Cons.IH [OF d1] Cons.IH [OF d2] d3 by simp
qed

lemma distinct_map_sort_key:
  "distinct (map f xs) \<Longrightarrow> distinct (map f (sort_key g xs))"
  by (simp add: distinct_map)

lemma consistent_subset:
  "consistent ps L \<Longrightarrow> set L' \<subseteq> set L \<Longrightarrow> consistent ps L'"
  by (auto simp: consistent_def list_all_iff)

lemma consistent_sort_filter:
  "consistent ps U \<Longrightarrow> consistent ps (sort_key g (filter P U))"
  by (rule consistent_subset) auto

lemma distinct_sort_filter:
  "distinct (map f U) \<Longrightarrow> distinct (map f (sort_key g (filter P U)))"
  by (simp add: distinct_map_sort_key distinct_map_filter)

lemma partition_tickers_disjoint:
  assumes "distinct (map f U)"
  shows "f ` set (filter P U) \<inter> f ` set (filter (\<lambda>x. \<not> P x) U) = {}"
proof -
  have inj: "inj_on f (set U)" using assms by (simp add: distinct_map)
  show ?thesis
  proof (rule ccontr)
    assume "f ` set (filter P U) \<inter> f ` set (filter (\<lambda>x. \<not> P x) U) \<noteq> {}"
    then obtain x y where "x \<in> set U" "P x" "y \<in> set U" "\<not> P y" "f x = f y" by auto
    then show False using inj by (auto dest: inj_onD)
  qed
qed

lemma part_ok_Nil: "0 \<le> B \<Longrightarrow> part_ok ps L B []"
  by (simp add: part_ok_def)

lemma buy_each_part_ok:
  assumes "0 \<le> B" "L \<noteq> []" "distinct (map ticker L)" "consistent ps L"
    and "buy_each (B / real (length L)) L = Inr a"
  shows "part_ok ps L B a"
proof -
  have per: "0 \<le> B / real (length L)" using assms(1) by simp
  have "cost_of ps a \<le> real (length L) * (B / real (length L))"
    using buy_each_cost [OF per assms(4) assms(5)] .
  moreover have "real (length L) * (B / real (length L)) = B" using assms(2) by simp
  ultimately have "cost_of ps a \<le> B" by simp
  then show ?thesis
    using buy_each_tickers [OF assms(5)] buy_each_distinct [OF assms(3) assms(5)]
          buy_each_positive [OF assms(5)]
    by (simp add: part_ok_def)
qed

lemma buy_preferred_part_ok:
  assumes "0 \<le> B" "0 < most" "distinct (map ticker L)" "consistent ps L"
    and "buy_preferred most B L = Inr a"
  shows "part_ok ps L B a"
proof (cases "L = []")
  case True
  then show ?thesis using assms by (simp add: buy_preferred_def part_ok_Nil)
next
  case False
  let ?n = "min most (length L)"
  let ?T = "take ?n L"
  have len: "length ?T = ?n" by simp
  have ne: "?T \<noteq> []" using False assms(2) by (cases L) auto
  have d: "distinct (map ticker ?T)"
    using assms(3) by (simp add: take_map [symmetric] del: take_map)
  have c: "consistent ps ?T"
    using consistent_subset [OF assms(4) set_take_subset] .
  have r: "buy_each (B / real (length ?T)) ?T = Inr a"
    using assms(5) False by (simp add: buy_preferred_def Let_def)
  have "part_ok ps ?T B a" using buy_each_part_ok [OF assms(1) ne d c r] .
  moreover have "ticker ` set ?T \<subseteq> ticker ` set L"
    using set_take_subset [of ?n L] by (rule image_mono)
  ultimately show ?thesis unfolding part_ok_def by blast
qed

lemma buy_others_part_ok:
  assumes "0 \<le> B" "L \<noteq> []" "distinct (map ticker L)" "consistent ps L"
    and "buy_others (min 3 (length L)) (B / real (min 3 (length L))) L ([], []) = Inr a"
  shows "part_ok ps L B a"
proof -
  let ?n = "min 3 (length L)"
  have n: "0 < ?n" using assms(2) by simp
  have per: "0 \<le> B / real ?n" using assms(1) by simp
  have "cost_of ps a \<le> cost_of ps [] + real (?n - length ([] :: allocation)) * (B / real ?n)"
    using buy_others_cost [OF per assms(4) _ assms(5)] by simp
  moreover have "real ?n * (B / real ?n) = B" using n by simp
  ultimately have "cost_of ps a \<le> B" by simp
  moreover have "distinct (map fst a)"
    using buy_others_distinct [OF _ assms(3) _ assms(5)] by simp
  moreover have "list_all (\<lambda>e. 0 < snd e) a"
    using buy_others_positive [OF _ assms(5)] by simp
  moreover have "set (map fst a) \<subseteq> ticker ` set L"
    using buy_others_tickers [OF assms(5)] by simp
  ultimately show ?thesis by (simp add: part_ok_def)
qed

lemma parts_ok_append:
  assumes "part_ok ps L1 B1 a1" "part_ok ps L2 B2 a2"
    and "ticker ` set L1 \<inter> ticker ` set L2 = {}"
  shows "distinct (map fst (a1 @ a2)) \<and> list_all (\<lambda>e. 0 < snd e) (a1 @ a2)
         \<and> cost_of ps (a1 @ a2) \<le> B1 + B2"
proof -
  have "set (map fst a1) \<inter> set (map fst a2) = {}"
    using assms unfolding part_ok_def by blast
  then have "distinct (map fst (a1 @ a2))"
    using assms(1,2) by (simp add: part_ok_def)
  moreover have "list_all (\<lambda>e. 0 < snd e) (a1 @ a2)"
    using assms(1,2) by (simp add: part_ok_def)
  moreover have "cost_of ps (a1 @ a2) \<le> B1 + B2"
    using assms(1,2) by (simp add: part_ok_def cost_of_append)
  ultimately show ?thesis by blast
qed

lemma universe_distinct: "distinct (map ticker (candidates_of av ps STOCKS))"
  using candidates_of_distinct [OF STOCKS_distinct] .

lemma diversification_ok:
  assumes "0 < budget ctx" "diversification ctx ps = Inr a"
  shows "allocation_ok ps (budget ctx * (96 / 100)) a"
proof -
  let ?cands = "sort_key price (candidates_of (avoided_sectors ctx) ps STOCKS)"
  let ?t = "if budget ctx < 100 then 3 else if budget ctx < 500 then 5 else (7::nat)"
  let ?sel = "select_diverse ?t (max 2 (?t div 2)) ?cands ([], [])"
  have dc: "distinct (map ticker ?cands)"
    using distinct_map_sort_key [OF universe_distinct] .
  have cc: "consistent ps ?cands"
    using consistent_subset [OF candidates_of_consistent [of ps "avoided_sectors ctx" STOCKS],
            of ?cands] by simp
  have ds: "distinct (map ticker ?sel)"
    using select_diverse_distinct [of "[]" ?cands] dc by simp
  have cs: "consistent ps ?sel"
    using consistent_subset [OF cc] select_diverse_set [of ?t "max 2 (?t div 2)" ?cands "[]" "[]"]
    by simp
  show ?thesis
  proof (cases "?sel = []")
    case True
    then have "a = []" using assms(2)
      by (simp add: diversification_def Let_def)
    then show ?thesis using assms(1) by (simp add: allocation_ok_def)
  next
    case False
    then have r: "buy_each (budget ctx * (96 / 100) / real (length ?sel)) ?sel = Inr a"
      using assms(2) by (simp add: diversification_def Let_def INITIAL_BUDGET_USAGE_def)
    have "0 \<le> budget ctx * (96 / 100)" using assms(1) by simp
    then have "part_ok ps ?sel (budget ctx * (96 / 100)) a"
      using buy_each_part_ok [OF _ False ds cs r] by blast
    then show ?thesis by (simp add: part_ok_def allocation_ok_def)
  qed
qed

lemma preference_weighted_ok:
  assumes "0 < budget ctx" "preference_weighted ctx ps = Inr a"
  shows "allocation_ok ps (budget ctx * (96 / 100)) a"
proof -
  let ?U = "candidates_of (avoided_sectors ctx) ps STOCKS"
  let ?P = "sort_key price (filter (\<lambda>s. sector s \<in> set (preferred_sectors ctx)) ?U)"
  let ?O = "sort_key price (filter (\<lambda>s. sector s \<notin> set (preferred_sectors ctx)) ?U)"
  have dP: "distinct (map ticker ?P)" and dO: "distinct (map ticker ?O)"
    using universe_distinct by (simp_all add: distinct_sort_filter del: sort_key_simps)
  have cP: "consistent ps ?P" and cO: "consistent ps ?O"
    using candidates_of_consistent by (simp_all add: consistent_sort_filter)
  have disj: "ticker ` set ?P \<inter> ticker ` set ?O = {}"
    using partition_tickers_disjoint
            [OF universe_distinct [of "avoided_sectors ctx" ps],
             where P = "\<lambda>s. sector s \<in> set (preferred_sectors ctx)"]
    by simp
  have b1: "0 \<le> budget ctx * (60 / 100)" and b2: "0 \<le> budget ctx * (36 / 100)"
    using assms(1) by simp_all
  from assms(2) obtain a1 where a1: "buy_preferred 3 (budget ctx * (60 / 100)) ?P = Inr a1"
    by (auto simp: preference_weighted_def Let_def split: sum.splits)
  have p1: "part_ok ps ?P (budget ctx * (60 / 100)) a1"
    using buy_preferred_part_ok [OF b1 _ dP cP a1] by simp
  have "\<exists>a2. a = a1 @ a2 \<and> part_ok ps ?O (budget ctx * (36 / 100)) a2"
  proof (cases "?O = []")
    case True
    then have "a = a1 @ []" using assms(2) a1
      by (simp add: preference_weighted_def Let_def)
    then show ?thesis using part_ok_Nil [OF b2] by blast
  next
    case False
    then obtain a2 where
      a2: "buy_others (min 3 (length ?O)) (budget ctx * (36 / 100) / real (min 3 (length ?O)))
             ?O ([], []) = Inr a2"
      and a: "a = a1 @ a2"
      using assms(2) a1 by (auto simp: preference_weighted_def Let_def split: sum.splits)
    have "part_ok ps ?O (budget ctx * (36 / 100)) a2"
      using buy_others_part_ok [OF b2 False dO cO a2] .
    then show ?thesis using a by blast
  qed
  then obtain a2 where a: "a = a1 @ a2" and p2: "part_ok ps ?O (budget ctx * (36 / 100)) a2"
    by blast
  show ?thesis
    using parts_ok_append [OF p1 p2 disj] a by (simp add: allocation_ok_def)
qed

lemma high_conviction_ok:
  assumes "0 < budget ctx" "high_conviction ctx ps = Inr a"
  shows "allocation_ok ps (budget ctx * (96 / 100)) a"
proof -
  let ?U = "candidates_of (avoided_sectors ctx) ps STOCKS"
  let ?P = "sort_key price (filter (\<lambda>s. sector s \<in> set (preferred_sectors ctx)) ?U)"
  let ?O = "sort_key price (filter (\<lambda>s. sector s \<notin> set (preferred_sectors ctx)) ?U)"
  let ?B2 = "budget ctx * (16 / 100)"
  have dP: "distinct (map ticker ?P)"
    using universe_distinct by (simp add: distinct_sort_filter del: sort_key_simps)
  have cP: "consistent ps ?P" and cO: "consistent ps ?O"
    using candidates_of_consistent by (simp_all add: consistent_sort_filter)
  have disj: "ticker ` set ?P \<inter> ticker ` set ?O = {}"
    using partition_tickers_disjoint
            [OF universe_distinct [of "avoided_sectors ctx" ps],
             where P = "\<lambda>s. sector s \<in> set (preferred_sectors ctx)"]
    by simp
  have b1: "0 \<le> budget ctx * (80 / 100)" and b2: "0 \<le> ?B2" and b2': "0 < ?B2"
    using assms(1) by simp_all
  from assms(2) obtain a1 where a1: "buy_preferred 4 (budget ctx * (80 / 100)) ?P = Inr a1"
    by (auto simp: high_conviction_def Let_def split: sum.splits)
  have p1: "part_ok ps ?P (budget ctx * (80 / 100)) a1"
    using buy_preferred_part_ok [OF b1 _ dP cP a1] by simp
  have "\<exists>a2. a = a1 @ a2 \<and> part_ok ps ?O ?B2 a2"
  proof (cases ?O)
    case Nil
    then have "a = a1 @ []" using assms(2) a1
      by (simp add: high_conviction_def Let_def)
    then show ?thesis using part_ok_Nil [OF b2] by blast
  next
    case (Cons s rest)
    have s_in: "s \<in> set ?O" using Cons by simp
    have cs: "map_of ps (ticker s) = Some (price s)"
      using cO s_in unfolding consistent_def list_all_iff by blast
    from assms(2) a1 Cons b2' have nz: "price s \<noteq> 0"
      and a: "a = a1 @ (if py_int (?B2 / price s) > 0 then [(ticker s, py_int (?B2 / price s))] else [])"
      by (auto simp: high_conviction_def Let_def split: if_splits)
    show ?thesis
    proof (cases "py_int (?B2 / price s) > 0")
      case False
      then show ?thesis using a part_ok_Nil [OF b2] by auto
    next
      case True
      have "real_of_int (py_int (?B2 / price s)) * price_key ps (ticker s, py_int (?B2 / price s)) \<le> ?B2"
        using bought_cost [OF b2 cs nz True] .
      then have "part_ok ps ?O ?B2 [(ticker s, py_int (?B2 / price s))]"
        using True s_in by (simp add: part_ok_def cost_of_Cons)
      then show ?thesis using a True by auto
    qed
  qed
  then obtain a2 where a: "a = a1 @ a2" and p2: "part_ok ps ?O ?B2 a2"
    by blast
  show ?thesis
    using parts_ok_append [OF p1 p2 disj] a by (simp add: allocation_ok_def)
qed

lemma buy_each_returns:
  "list_all (\<lambda>s. price s \<noteq> 0) L \<Longrightarrow> \<exists>a. buy_each per L = Inr a"
  by (induction L) (auto simp: Let_def)

lemma buy_others_returns:
  "list_all (\<lambda>s. price s \<noteq> 0) L \<Longrightarrow> \<exists>a. buy_others tgt per L (sel, cnt) = Inr a"
  by (induction L arbitrary: sel cnt) (simp_all add: Let_def)

lemma candidates_of_nonzero:
  assumes "list_all (\<lambda>e. snd e \<noteq> 0) ps"
  shows "list_all (\<lambda>s. price s \<noteq> 0) (candidates_of av ps ss)"
proof -
  have "\<And>s. s \<in> set (candidates_of av ps ss) \<Longrightarrow> price s \<noteq> 0"
  proof -
    fix s assume "s \<in> set (candidates_of av ps ss)"
    then have "map_of ps (ticker s) = Some (price s)"
      using candidates_of_consistent [of ps av ss] by (simp add: consistent_def list_all_iff)
    then have "(ticker s, price s) \<in> set ps" by (rule map_of_SomeD)
    then show "price s \<noteq> 0" using assms by (auto simp: list_all_iff)
  qed
  then show ?thesis by (simp add: list_all_iff)
qed

lemma nonzero_subset:
  "list_all (\<lambda>s. price s \<noteq> 0) L \<Longrightarrow> set L' \<subseteq> set L \<Longrightarrow> list_all (\<lambda>s. price s \<noteq> 0) L'"
  by (auto simp: list_all_iff)

lemma buy_preferred_returns:
  "list_all (\<lambda>s. price s \<noteq> 0) L \<Longrightarrow> \<exists>a. buy_preferred most B L = Inr a"
  using buy_each_returns [OF nonzero_subset [OF _ set_take_subset]]
  by (simp add: buy_preferred_def Let_def)

lemma build_portfolio_returns:
  assumes "list_all (\<lambda>e. snd e \<noteq> 0) ps"
  shows "\<exists>a. build_portfolio strategy ctx ps = Inr a"
proof -
  let ?U = "candidates_of (avoided_sectors ctx) ps STOCKS"
  have U: "list_all (\<lambda>s. price s \<noteq> 0) ?U" using candidates_of_nonzero [OF assms] .
  have sub: "\<And>L. set L \<subseteq> set ?U \<Longrightarrow> list_all (\<lambda>s. price s \<noteq> 0) L"
    using nonzero_subset [OF U] .
  have d: "\<exists>a. diversification ctx ps = Inr a"
  proof -
    let ?cands = "sort_key price ?U"
    let ?t = "if budget ctx < 100 then 3 else if budget ctx < 500 then 5 else (7::nat)"
    let ?sel = "select_diverse ?t (max 2 (?t div 2)) ?cands ([], [])"
    have "set ?sel \<subseteq> set ?U"
      using select_diverse_set [of ?t "max 2 (?t div 2)" ?cands "[]" "[]"] by simp
    then have "\<exists>a. buy_each (budget ctx * INITIAL_BUDGET_USAGE / real (length ?sel)) ?sel = Inr a"
      using buy_each_returns [OF sub] by blast
    then show ?thesis by (auto simp: diversification_def Let_def)
  qed
  let ?P = "sort_key price (filter (\<lambda>s. sector s \<in> set (preferred_sectors ctx)) ?U)"
  let ?O = "sort_key price (filter (\<lambda>s. sector s \<notin> set (preferred_sectors ctx)) ?U)"
  have nP: "list_all (\<lambda>s. price s \<noteq> 0) ?P" and nO: "list_all (\<lambda>s. price s \<noteq> 0) ?O"
    by (rule sub, simp)+
  have p: "\<exists>a. preference_weighted ctx ps = Inr a"
  proof -
    obtain a1 where a1: "buy_preferred 3 (budget ctx * (60 / 100)) ?P = Inr a1"
      using buy_preferred_returns [OF nP] by blast
    obtain a2 where "buy_others (min 3 (length ?O))
        (budget ctx * (36 / 100) / real (min 3 (length ?O))) ?O ([], []) = Inr a2"
      using buy_others_returns [OF nO] by blast
    then show ?thesis using a1 by (simp add: preference_weighted_def Let_def)
  qed
  have h: "\<exists>a. high_conviction ctx ps = Inr a"
  proof -
    obtain a1 where a1: "buy_preferred 4 (budget ctx * (80 / 100)) ?P = Inr a1"
      using buy_preferred_returns [OF nP] by blast
    show ?thesis
    proof (cases ?O)
      case Nil
      then show ?thesis using a1 by (simp add: high_conviction_def Let_def)
    next
      case (Cons s rest)
      then have "price s \<noteq> 0" using nO by simp
      then show ?thesis using a1 Cons by (simp add: high_conviction_def Let_def)
    qed
  qed
  show ?thesis using d p h by (simp add: build_portfolio_def)
qed

text \<open>
  Claim C1.  For every strategy tag, every client context with a positive budget and
  every price map, an allocation returned by \<open>build_portfolio\<close> has no ticker twice,
  only strictly positive share counts, and a total cost (the sum over its entries of
  shares times price) of at most the budget times 1.01; in fact of at most the budget
  times 0.96.  The function returns an allocation whenever no price of the price map is
  zero (\<open>build_portfolio_returns\<close>); dividing by a price of zero raises
  ZeroDivisionError instead.
\<close>

theorem build_portfolio_invariant:
  assumes "0 < budget ctx" and "build_portfolio strategy ctx ps = Inr portfolio"
  shows "distinct (map fst portfolio) \<and> (\<forall>e\<in>set portfolio. 0 < snd e)
         \<and> cost_of ps portfolio \<le> budget ctx * (101 / 100)"
proof -
  have "allocation_ok ps (budget ctx * (96 / 100)) portfolio"
    using assms diversification_ok preference_weighted_ok high_conviction_ok
    by (auto simp: build_portfolio_def split: if_splits)
  moreover have "budget ctx * (96 / 100) \<le> budget ctx * (101 / 100)"
    using assms(1) by simp
  ultimately show ?thesis by (auto simp: allocation_ok_def list_all_iff)
qed

theorem build_portfolio_invariant_witness:
  "build_portfolio ''high_conviction''
     \<lparr>budget = 300, preferred_sectors = [''Technology''], avoided_sectors = [],
      preference_strength = 75\<rparr>
     [(''AAPL'', 100), (''WMT'', 50)] = Inr [(''AAPL'', 2)]
   \<and> cost_of [(''AAPL'', 100), (''WMT'', 50)] [(''AAPL'', 2)] \<le> 300 * (101 / 100)
   \<and> build_portfolio ''diversification''
     \<lparr>budget = 1000, preferred_sectors = [], avoided_sectors = [''Healthcare''],
      preference_strength = 20\<rparr>
     [(''AAPL'', 100), (''WMT'', 50), (''KO'', 60), (''JNJ'', 150), (''PG'', 70), (''PEP'', 80)]
     = Inr [(''WMT'', 4), (''KO'', 4), (''PG'', 3), (''AAPL'', 2)]
   \<and> cost_of
       [(''AAPL'', 100), (''WMT'', 50), (''KO'', 60), (''JNJ'', 150), (''PG'', 70), (''PEP'', 80)]
       [(''WMT'', 4), (''KO'', 4), (''PG'', 3), (''AAPL'', 2)] \<le> 1000 * (101 / 100)
   \<and> build_portfolio ''preference_weighted''
     \<lparr>budget = 1000, preferred_sectors = [''Technology''], avoided_sectors = [''Healthcare''],
      preference_strength = 40\<rparr>
     [(''AAPL'', 100), (''WMT'', 50), (''KO'', 60), (''JNJ'', 150), (''PG'', 70), (''CVX'', 80)]
     = Inr [(''AAPL'', 6), (''WMT'', 2), (''CVX'', 1)]
   \<and> distinct (map fst [(''AAPL'', 6 :: int), (''WMT'', 2), (''CVX'', 1)])"
proof -
  have 1: "build_portfolio ''high_conviction''
     \<lparr>budget = 300, preferred_sectors = [''Technology''], avoided_sectors = [],
      preference_strength = 75\<rparr>
     [(''AAPL'', 100), (''WMT'', 50)] = Inr [(''AAPL'', 2)]"
    by (simp add: build_portfolio_def high_conviction_def STOCKS_def candidates_of_def
        List.map_filter_simps with_price_def buy_preferred_def py_int_def Let_def)
  have 2: "build_portfolio ''diversification''
     \<lparr>budget = 1000, preferred_sectors = [], avoided_sectors = [''Healthcare''],
      preference_strength = 20\<rparr>
     [(''AAPL'', 100), (''WMT'', 50), (''KO'', 60), (''JNJ'', 150), (''PG'', 70), (''PEP'', 80)]
     = Inr [(''WMT'', 4), (''KO'', 4), (''PG'', 3), (''AAPL'', 2)]"
    by (simp add: build_portfolio_def diversification_def STOCKS_def candidates_of_def
        List.map_filter_simps with_price_def get_count_def INITIAL_BUDGET_USAGE_def
        py_int_def Let_def)
  have 3: "build_portfolio ''preference_weighted''
     \<lparr>budget = 1000, preferred_sectors = [''Technology''], avoided_sectors = [''Healthcare''],
      preference_strength = 40\<rparr>
     [(''AAPL'', 100), (''WMT'', 50), (''KO'', 60), (''JNJ'', 150), (''PG'', 70), (''CVX'', 80)]
     = Inr [(''AAPL'', 6), (''WMT'', 2), (''CVX'', 1)]"
    by (simp add: build_portfolio_def preference_weighted_def STOCKS_def candidates_of_def
        List.map_filter_simps with_price_def get_count_def buy_preferred_def
        py_int_def Let_def)
  show ?thesis
    using 1 2 3 build_portfolio_invariant [OF _ 1] build_portfolio_invariant [OF _ 2]
          build_portfolio_invariant [OF _ 3]
    by simp
qed

end
